theory Spec2Isabelle
  imports Complex_Main "HOL-Library.Char_ord" "HOL-Library.List_Lexorder"
begin

section \<open>KPL-Premiere: the tournament progression engine\<close>

text \<open>
  A shallow embedding of \<^verbatim>\<open>js/match.js\<close>, \<^verbatim>\<open>js/swiss.js\<close>, \<^verbatim>\<open>js/bracket.js\<close>,
  \<^verbatim>\<open>js/sorting.js\<close>, \<^verbatim>\<open>js/state.js\<close> and \<^verbatim>\<open>js/config.js\<close>.

  Team objects are mutable and shared: the same object is reachable from
  \<^verbatim>\<open>state.teams\<close>, from the pairs of \<^verbatim>\<open>state.bracketRounds\<close>, from a pool and from
  the closure of a match. A team object is therefore a reference into a store, and every
  assignment to a field of a team is an update of the store.

  The counters and statistics are JavaScript numbers that the program only ever creates as
  integers (initialised to 0, incremented, or the sum and difference of parsed integers),
  far below \<open>2^53\<close>; they are \<open>int\<close> here.
\<close>

subsection \<open>Data model (the state shape of \<^verbatim>\<open>state.js\<close>)\<close>

record stats =
  w :: int
  l :: int
  pd :: int

text \<open>
  \<^verbatim>\<open>swiss: { w, l, pd, opps: [], h2h: {} }\<close>, with the transient property
  \<^verbatim>\<open>playR4\<close> that is either absent (\<open>False\<close>) or \<^verbatim>\<open>true\<close>. No function reads or
  writes an entry of \<^verbatim>\<open>h2h\<close>.
\<close>

record swiss_stats = stats +
  opps :: "string list"
  h2h :: "(string \<times> int) list"
  playR4 :: bool

record league_stats = stats +
  pts :: int

record named =
  name :: string

record team = named +
  players :: "string list"
  swiss :: swiss_stats
  bracket :: stats

record player = named +
  team :: string
  league :: league_stats

type_synonym ref = nat

type_synonym store = "ref \<Rightarrow> team"

record state =
  week :: int
  teams :: "ref list"
  playerList :: "player list"
  swissRound :: int
  pending :: int
  bracketRounds :: "(ref \<times> ref) list list"
  heap :: store

subsection \<open>\<^verbatim>\<open>config.js\<close>\<close>

definition TOTAL_WEEKS :: int where
  "TOTAL_WEEKS = 15"

definition BRACKET_BASE_POINTS :: "int list" where
  "BRACKET_BASE_POINTS = [10, 8, 6, 4]"

definition FIRST_PLACE_BONUS :: int where
  "FIRST_PLACE_BONUS = 5"

definition LOSER_POINT_PENALTY :: int where
  "LOSER_POINT_PENALTY = 2"

subsection \<open>\<^verbatim>\<open>match.js\<close>: score validation\<close>

text \<open>
  \<^verbatim>\<open>isValidScore\<close> is exported and takes any two JavaScript values. A number is NaN,
  an infinity, or a finite double, which is a rational; the model keeps its exact value.
  The only arithmetic is \<^verbatim>\<open>max - min\<close> on two values already known to lie in
  \<open>[0, 99]\<close> with \<^verbatim>\<open>max >= 11\<close>, compared with 2: rounding is monotone and 2 is a double,
  and a difference that would round up to 2 has both operands above 8, where doubles are
  multiples of \<open>2^-49\<close> and the difference is exact. So the comparison on exact values is the
  comparison the program makes.
\<close>

datatype js_number = NaN | NegInfinity | PosInfinity | Finite rat

datatype js_value = JNumber js_number | JString string | JUndefined

fun js_lt :: "js_number \<Rightarrow> js_number \<Rightarrow> bool" where
  "js_lt NaN _ = False"
| "js_lt _ NaN = False"
| "js_lt (Finite x) (Finite y) = (x < y)"
| "js_lt NegInfinity NegInfinity = False"
| "js_lt NegInfinity _ = True"
| "js_lt _ NegInfinity = False"
| "js_lt PosInfinity _ = False"
| "js_lt _ PosInfinity = True"

definition js_gt :: "js_number \<Rightarrow> js_number \<Rightarrow> bool" where
  "js_gt x y = js_lt y x"

fun isValidScore :: "js_value \<Rightarrow> js_value \<Rightarrow> bool" where
  "isValidScore (JNumber scoreA) (JNumber scoreB) =
     (if scoreA = NaN \<or> scoreB = NaN then False
      else if js_lt scoreA (Finite 0) \<or> js_lt scoreB (Finite 0)
              \<or> js_gt scoreA (Finite 99) \<or> js_gt scoreB (Finite 99) then False
      else (case (scoreA, scoreB) of
              (Finite x, Finite y) \<Rightarrow> max x y \<ge> 11 \<and> max x y - min x y \<ge> 2
            | _ \<Rightarrow> False))"
| "isValidScore _ _ = False"

text \<open>
  The condition as the specification words it: both scores non-negative integers at most
  99, the larger at least 11, and at least 2 apart.
\<close>

definition isInteger :: "rat \<Rightarrow> bool" where
  "isInteger q = (of_int \<lfloor>q\<rfloor> = q)"

fun specValidScore :: "js_value \<Rightarrow> js_value \<Rightarrow> bool" where
  "specValidScore (JNumber (Finite x)) (JNumber (Finite y)) =
     (isInteger x \<and> isInteger y \<and> 0 \<le> x \<and> 0 \<le> y \<and> x \<le> 99 \<and> y \<le> 99
      \<and> max x y \<ge> 11 \<and> \<bar>x - y\<bar> \<ge> 2)"
| "specValidScore _ _ = False"

text \<open>The same condition without the integrality requirement.\<close>

fun rangeValidScore :: "js_value \<Rightarrow> js_value \<Rightarrow> bool" where
  "rangeValidScore (JNumber (Finite x)) (JNumber (Finite y)) =
     (0 \<le> x \<and> 0 \<le> y \<and> x \<le> 99 \<and> y \<le> 99 \<and> max x y \<ge> 11 \<and> \<bar>x - y\<bar> \<ge> 2)"
| "rangeValidScore _ _ = False"

text \<open>\<^verbatim>\<open>parseInt\<close> yields an integer or NaN (\<open>None\<close>).\<close>

fun parsed :: "int option \<Rightarrow> js_value" where
  "parsed None = JNumber NaN"
| "parsed (Some i) = JNumber (Finite (of_int i))"

subsection \<open>\<^verbatim>\<open>match.js\<close>: applying a score\<close>

text \<open>
  \<^verbatim>\<open>applyScore\<close> selects the Swiss or the bracket block of both teams and then assigns
  to the fields of the two blocks one statement at a time. Each assignment is an update of
  the store, in the order of the source, so the model is also right when both arguments
  are the same object. Every team of the store carries both blocks (they are created with
  both, week finalization assigns both, and the backup import rejects a team lacking one),
  so the branch for a missing block is never taken and does not appear.
\<close>

definition addW :: "bool \<Rightarrow> ref \<Rightarrow> int \<Rightarrow> store \<Rightarrow> store" where
  "addW isSwiss r d h =
     (if isSwiss then h(r := (h r)\<lparr>swiss := (swiss (h r))\<lparr>w := w (swiss (h r)) + d\<rparr>\<rparr>)
      else h(r := (h r)\<lparr>bracket := (bracket (h r))\<lparr>w := w (bracket (h r)) + d\<rparr>\<rparr>))"

definition addL :: "bool \<Rightarrow> ref \<Rightarrow> int \<Rightarrow> store \<Rightarrow> store" where
  "addL isSwiss r d h =
     (if isSwiss then h(r := (h r)\<lparr>swiss := (swiss (h r))\<lparr>l := l (swiss (h r)) + d\<rparr>\<rparr>)
      else h(r := (h r)\<lparr>bracket := (bracket (h r))\<lparr>l := l (bracket (h r)) + d\<rparr>\<rparr>))"

definition addPd :: "bool \<Rightarrow> ref \<Rightarrow> int \<Rightarrow> store \<Rightarrow> store" where
  "addPd isSwiss r d h =
     (if isSwiss then h(r := (h r)\<lparr>swiss := (swiss (h r))\<lparr>pd := pd (swiss (h r)) + d\<rparr>\<rparr>)
      else h(r := (h r)\<lparr>bracket := (bracket (h r))\<lparr>pd := pd (bracket (h r)) + d\<rparr>\<rparr>))"

type_synonym result = "int \<times> int"

definition undoLast :: "ref \<Rightarrow> ref \<Rightarrow> bool \<Rightarrow> result option \<Rightarrow> store \<Rightarrow> store" where
  "undoLast a b isSwiss lastResult h =
     (case lastResult of
        None \<Rightarrow> h
      | Some (sa, sb) \<Rightarrow>
          (let h1 = addW isSwiss a (- (if sa > sb then 1 else 0)) h;
               h2 = addL isSwiss a (- (if sb > sa then 1 else 0)) h1;
               h3 = addW isSwiss b (- (if sb > sa then 1 else 0)) h2;
               h4 = addL isSwiss b (- (if sa > sb then 1 else 0)) h3;
               h5 = addPd isSwiss a (- (sa - sb)) h4
           in addPd isSwiss b (- (sb - sa)) h5))"

definition applyScore ::
  "store \<Rightarrow> ref \<Rightarrow> ref \<Rightarrow> int \<Rightarrow> int \<Rightarrow> bool \<Rightarrow> result option \<Rightarrow> store \<times> result option" where
  "applyScore h a b scoreA scoreB isSwiss lastResult =
     (let h0 = undoLast a b isSwiss lastResult h;
          h1 = addPd isSwiss a (scoreA - scoreB) h0;
          h2 = addPd isSwiss b (scoreB - scoreA) h1;
          h3 = (if scoreA > scoreB then addL isSwiss b 1 (addW isSwiss a 1 h2)
                else addL isSwiss a 1 (addW isSwiss b 1 h2))
      in (h3, Some (scoreA, scoreB)))"

subsection \<open>\<^verbatim>\<open>match.js\<close>: a single-game match and its two handlers\<close>

text \<open>
  \<^verbatim>\<open>makeMatch(a, b, isSwiss)\<close> closes over the two team objects and over the variables
  \<^verbatim>\<open>done\<close>, \<^verbatim>\<open>lastResult\<close> and \<^verbatim>\<open>oppsRecorded\<close>; both handlers also disable the
  submit button. A match is the record of these. The handlers take the values that
  \<^verbatim>\<open>parseInt\<close> produced; the admin handler first gets each answer of \<^verbatim>\<open>prompt\<close>, which
  is \<^verbatim>\<open>null\<close> (\<open>None\<close>) when the dialog is cancelled. Rendering, \<^verbatim>\<open>State.save\<close> and
  the completion notification change nothing that is modelled here.
\<close>

record match =
  m_a :: ref
  m_b :: ref
  m_isSwiss :: bool
  bestOf3 :: bool
  isDone :: bool
  lastResult :: "result option"
  oppsRecorded :: bool
  submitDisabled :: bool

definition makeMatch :: "ref \<Rightarrow> ref \<Rightarrow> bool \<Rightarrow> match" where
  "makeMatch a b isSwiss =
     \<lparr>m_a = a, m_b = b, m_isSwiss = isSwiss, bestOf3 = False, isDone = False,
      lastResult = None, oppsRecorded = False, submitDisabled = False\<rparr>"

definition makeBo3Match :: "ref \<Rightarrow> ref \<Rightarrow> bool \<Rightarrow> match" where
  "makeBo3Match a b isSwiss =
     \<lparr>m_a = a, m_b = b, m_isSwiss = isSwiss, bestOf3 = True, isDone = False,
      lastResult = None, oppsRecorded = False, submitDisabled = False\<rparr>"

definition pushOpp :: "ref \<Rightarrow> string \<Rightarrow> store \<Rightarrow> store" where
  "pushOpp r n h = h(r := (h r)\<lparr>swiss := (swiss (h r))\<lparr>opps := opps (swiss (h r)) @ [n]\<rparr>\<rparr>)"

fun submitClick :: "state \<Rightarrow> match \<Rightarrow> int option \<Rightarrow> int option \<Rightarrow> state \<times> match" where
  "submitClick st m (Some scoreA) (Some scoreB) =
     (if \<not> isValidScore (parsed (Some scoreA)) (parsed (Some scoreB)) then (st, m)
      else
        (let st1 = (if \<not> isDone m then st\<lparr>pending := pending st - 1\<rparr> else st);
             (h1, res) = applyScore (heap st1) (m_a m) (m_b m) scoreA scoreB (m_isSwiss m)
                           (lastResult m);
             first = (m_isSwiss m \<and> \<not> oppsRecorded m);
             h2 = (if first then pushOpp (m_a m) (name (h1 (m_b m))) h1 else h1);
             h3 = (if first then pushOpp (m_b m) (name (h2 (m_a m))) h2 else h2)
         in (st1\<lparr>heap := h3\<rparr>,
             m\<lparr>isDone := True, lastResult := res,
               oppsRecorded := (if first then True else oppsRecorded m),
               submitDisabled := True\<rparr>)))"
| "submitClick st m _ _ = (st, m)"

fun adminClick ::
  "state \<Rightarrow> match \<Rightarrow> int option option \<Rightarrow> int option option \<Rightarrow> state \<times> match" where
  "adminClick st m None _ = (st, m)"
| "adminClick st m _ None = (st, m)"
| "adminClick st m (Some (Some parsedA)) (Some (Some parsedB)) =
     (if \<not> isValidScore (parsed (Some parsedA)) (parsed (Some parsedB)) then (st, m)
      else
        (let st1 = (if \<not> isDone m then st\<lparr>pending := pending st - 1\<rparr> else st);
             (h1, res) = applyScore (heap st1) (m_a m) (m_b m) parsedA parsedB (m_isSwiss m)
                           (lastResult m)
         in (st1\<lparr>heap := h1\<rparr>,
             m\<lparr>isDone := True, lastResult := res, submitDisabled := True\<rparr>)))"
| "adminClick st m _ _ = (st, m)"

subsection \<open>\<^verbatim>\<open>swiss.js\<close>: pairing by backtracking\<close>

text \<open>
  \<^verbatim>\<open>swissPair\<close> keeps a set \<^verbatim>\<open>used\<close> of team objects and a list \<^verbatim>\<open>result\<close> of pairs,
  both mutated by the recursive \<^verbatim>\<open>backtrack\<close>. The model threads both through the
  recursion and returns them with the boolean: \<^verbatim>\<open>backtrack\<close> is the function body up
  to the \<^verbatim>\<open>for\<close> loop, \<^verbatim>\<open>backtrackLoop\<close> is the loop over the remaining candidates
  \<open>bs\<close> of the pool, with the final \<^verbatim>\<open>used.delete(a); return false\<close> when they run out.
  The loop continues after a failed recursive call from the state that call left behind.
\<close>

function backtrack ::
    "store \<Rightarrow> ref list \<Rightarrow> ref set \<Rightarrow> (ref \<times> ref) list \<Rightarrow> bool \<times> ref set \<times> (ref \<times> ref) list"
  and backtrackLoop ::
    "store \<Rightarrow> ref list \<Rightarrow> ref \<Rightarrow> ref list \<Rightarrow> ref set \<Rightarrow> (ref \<times> ref) list
       \<Rightarrow> bool \<times> ref set \<times> (ref \<times> ref) list"
where
  "backtrack h pool used result =
     (if card used = length pool then (True, used, result)
      else (case find (\<lambda>t. t \<notin> used) pool of
              None \<Rightarrow> (False, used, result)
            | Some a \<Rightarrow> backtrackLoop h pool a pool (insert a used) result))"
| "backtrackLoop h pool a [] used result = (False, used - {a}, result)"
| "backtrackLoop h pool a (b # bs) used result =
     (if b \<in> used \<or> name (h b) \<in> set (opps (swiss (h a)))
      then backtrackLoop h pool a bs used result
      else (case backtrack h pool (insert b used) (result @ [(a, b)]) of
              (True, used', result') \<Rightarrow> (True, used', result')
            | (False, used', result') \<Rightarrow>
                backtrackLoop h pool a bs (used' - {b}) (butlast result')))"
  by pat_completeness auto

text \<open>
  Termination: every call of \<^verbatim>\<open>backtrack\<close> from the loop has one more pool member in
  \<open>used\<close> than the call that chose \<open>a\<close>, and the loop shortens its candidates. That the
  loop resumes with no fewer used teams needs the fact that a failed call gives back the
  set it was given, shown first on the domain of the function.
\<close>

termination
proof -
  have restore:
    "backtrack_backtrackLoop_dom (Inl (h, pool, used, result)) \<Longrightarrow>
       \<not> fst (backtrack h pool used result) \<Longrightarrow>
       backtrack h pool used result = (False, used, result)"
    "backtrack_backtrackLoop_dom (Inr (h, pool, a, bs, used, result)) \<Longrightarrow>
       \<not> fst (backtrackLoop h pool a bs used result) \<Longrightarrow>
       backtrackLoop h pool a bs used result = (False, used - {a}, result)"
    for h pool used result a bs
  proof (induct rule: backtrack_backtrackLoop.pinduct)
    case (1 h pool used result)
    show ?case
    proof (cases "find (\<lambda>t. t \<notin> used) pool")
      case None
      with 1(1,3) show ?thesis
        by (auto simp: backtrack.psimps split: if_splits)
    next
      case (Some a)
      then have a: "a \<notin> used"
        by (auto simp: find_Some_iff)
      from 1(1,3) Some have ne: "card used \<noteq> length pool"
        by (auto simp: backtrack.psimps split: if_splits)
      from 1(1,3) Some ne have "\<not> fst (backtrackLoop h pool a pool (insert a used) result)"
        by (simp add: backtrack.psimps)
      with 1(2) [OF ne Some]
      have "backtrackLoop h pool a pool (insert a used) result
              = (False, insert a used - {a}, result)"
        by simp
      with 1(1) Some ne a show ?thesis
        by (simp add: backtrack.psimps)
    qed
  next
    case (2 h pool a used result)
    then show ?case
      by (simp add: backtrackLoop.psimps)
  next
    case (3 h pool a b bs used result)
    show ?case
    proof (cases "b \<in> used \<or> name (h b) \<in> set (opps (swiss (h a)))")
      case True
      with 3(1,5) have "\<not> fst (backtrackLoop h pool a bs used result)"
        by (simp add: backtrackLoop.psimps)
      with 3(2) [OF True] 3(1) True show ?thesis
        by (simp add: backtrackLoop.psimps)
    next
      case False
      obtain ok u r where res: "backtrack h pool (insert b used) (result @ [(a, b)]) = (ok, u, r)"
        by (cases "backtrack h pool (insert b used) (result @ [(a, b)])") auto
      from 3(1,5) False res have nok: "\<not> ok"
        by (auto simp: backtrackLoop.psimps)
      with 3(3) [OF False] res have ur: "u = insert b used" "r = result @ [(a, b)]"
        by simp_all
      from False have bu: "insert b used - {b} = used"
        by auto
      from 3(1,5) False res nok ur bu
      have "\<not> fst (backtrackLoop h pool a bs used result)"
        by (simp add: backtrackLoop.psimps)
      moreover have "\<not> fst (backtrackLoop h pool a bs used result) \<Longrightarrow>
          backtrackLoop h pool a bs used result = (False, used - {a}, result)"
        using 3(4) [OF False, of ok "(u, r)" u r] res nok ur bu by simp
      ultimately show ?thesis
        using 3(1) False res nok ur bu by (simp add: backtrackLoop.psimps)
    qed
  qed
  show ?thesis
  proof (relation "inv_image (less_than <*lex*> less_than <*lex*> less_than)
     (\<lambda>x. case x of
        Inl (h, pool, used, result) \<Rightarrow> (card (set pool - used), 0::nat, 0::nat)
      | Inr (h, pool, a, bs, used, result) \<Rightarrow> (card (set pool - used), 1, length bs))",
     goal_cases)
    case 1
    show ?case
      by (intro wf_inv_image wf_lex_prod wf_less_than)
  next
    case (2 h pool used result a)
    then have "a \<in> set pool - used"
      by (auto simp: find_Some_iff)
    then have "card (set pool - used - {a}) < card (set pool - used)"
      by (intro card_Diff1_less) auto
    moreover have "set pool - insert a used = set pool - used - {a}"
      by auto
    ultimately show ?case by simp
  next
    case (3 h pool a b bs used result)
    show ?case by simp
  next
    case (4 h pool a b bs used result)
    have "card (set pool - insert b used) \<le> card (set pool - used)"
      by (intro card_mono) auto
    then show ?case by auto
  next
    case (5 h pool a b bs used result x y xa ya)
    from 5(2,3,4) have "\<not> fst (backtrack h pool (insert b used) (result @ [(a, b)]))"
      by (metis fst_conv)
    from restore(1) [OF 5(5) this] 5(2,4) have "xa = insert b used"
      by (metis Pair_inject)
    with 5(1) have "xa - {b} = used" by auto
    then show ?case by simp
  qed
qed

declare backtrack.simps [simp del]

definition swissPair :: "store \<Rightarrow> ref list \<Rightarrow> (ref \<times> ref) list" where
  "swissPair h pool =
     (if length pool < 2 then []
      else snd (snd (backtrack h pool {} [])))"

subsection \<open>\<^verbatim>\<open>swiss.js\<close>: generating the next Swiss round\<close>

text \<open>
  The pools are the properties of an object keyed by the string \<^verbatim>\<open>`${w}-${l}`\<close>, read
  back in insertion order. Two integer records give the same string only when they are
  equal, so the model keys the pools by the pair \<open>(w, l)\<close> and keeps them in an association
  list in insertion order; \<^verbatim>\<open>pools['2-0']\<close> is the lookup of \<open>(2, 0)\<close>.

  \<^verbatim>\<open>nextSwissRound\<close> returns the new state and the matches it appended to the round
  element, in order. Each created match increments \<^verbatim>\<open>pending\<close>.
\<close>

type_synonym pools = "((int \<times> int) \<times> ref list) list"

fun addToPool :: "int \<times> int \<Rightarrow> ref \<Rightarrow> pools \<Rightarrow> pools" where
  "addToPool key t [] = [(key, [t])]"
| "addToPool key t ((k, ts) # ps) =
     (if k = key then (k, ts @ [t]) # ps else (k, ts) # addToPool key t ps)"

definition groupPools :: "store \<Rightarrow> ref list \<Rightarrow> pools" where
  "groupPools h ts = foldl (\<lambda>ps t. addToPool (w (swiss (h t)), l (swiss (h t))) t ps) [] ts"

definition createMatches ::
  "(ref \<Rightarrow> ref \<Rightarrow> bool \<Rightarrow> match) \<Rightarrow> (ref \<times> ref) list \<Rightarrow> state \<times> match list \<Rightarrow> state \<times> match list" where
  "createMatches mk pairs r =
     ((fst r)\<lparr>pending := pending (fst r) + int (length pairs)\<rparr>,
      snd r @ map (\<lambda>(a, b). mk a b True) pairs)"

definition setPlayR4 :: "bool \<Rightarrow> store \<Rightarrow> ref \<Rightarrow> store" where
  "setPlayR4 v h t = h(t := (h t)\<lparr>swiss := (swiss (h t))\<lparr>playR4 := v\<rparr>\<rparr>)"

definition round3 :: "state \<Rightarrow> pools \<Rightarrow> state \<times> match list" where
  "round3 st pools =
     (let r1 = (case map_of pools (2, 0) of
                  None \<Rightarrow> (st, [])
                | Some pool \<Rightarrow> createMatches makeBo3Match (swissPair (heap st) pool) (st, []));
          r2 = (case map_of pools (1, 1) of
                  None \<Rightarrow> r1
                | Some pool \<Rightarrow>
                    (let st' = (fst r1)\<lparr>heap := foldl (setPlayR4 True) (heap (fst r1)) pool\<rparr>
                     in createMatches makeMatch (swissPair (heap st') pool) (st', snd r1)))
      in (case map_of pools (0, 2) of
            None \<Rightarrow> r2
          | Some pool \<Rightarrow> createMatches makeBo3Match (swissPair (heap (fst r2)) pool) r2))"

definition r4teamsOf :: "state \<Rightarrow> ref list" where
  "r4teamsOf st = filter (\<lambda>t. playR4 (swiss (heap st t))) (teams st)"

definition round4 :: "state \<Rightarrow> state \<times> match list" where
  "round4 st =
     (let r4teams = r4teamsOf st
      in if length r4teams = 4 then
           (let winners = filter (\<lambda>t. w (swiss (heap st t)) = 2 \<and> l (swiss (heap st t)) = 1) r4teams;
                losers = filter (\<lambda>t. w (swiss (heap st t)) = 1 \<and> l (swiss (heap st t)) = 2) r4teams;
                r1 = (if length winners = 2
                      then createMatches makeMatch (swissPair (heap st) winners) (st, [])
                      else (st, []));
                r2 = (if length losers = 2
                      then createMatches makeMatch (swissPair (heap (fst r1)) losers) r1
                      else r1)
            in ((fst r2)\<lparr>heap := foldl (setPlayR4 False) (heap (fst r2)) r4teams\<rparr>, snd r2))
         else (st, []))"

definition otherRound :: "state \<Rightarrow> pools \<Rightarrow> state \<times> match list" where
  "otherRound st pools =
     foldl (\<lambda>r pool. createMatches makeMatch (swissPair (heap (fst r)) pool) r) (st, [])
       (map snd pools)"

definition nextSwissRound :: "state \<Rightarrow> state \<times> match list" where
  "nextSwissRound st =
     (if pending st > 0 then (st, [])
      else
        (let st1 = st\<lparr>swissRound := swissRound st + 1, pending := 0\<rparr>
         in if teams st1 = [] then (st1, [])
            else
              (let pools = groupPools (heap st1) (teams st1)
               in if swissRound st1 = 3 then round3 st1 pools
                  else if swissRound st1 = 4 then round4 st1
                  else otherRound st1 pools)))"

subsection \<open>\<^verbatim>\<open>bracket.js\<close>: week finalization and the next week\<close>

text \<open>
  \<^verbatim>\<open>finalizeWeek\<close> returns without touching anything when round 3 is missing or empty
  (\<open>Round3Missing\<close>). For a pair at index 4 or beyond, \<^verbatim>\<open>BRACKET_BASE_POINTS[i]\<close> is
  \<^verbatim>\<open>undefined\<close> and both awards are NaN (\<open>None\<close>); a player who is found and credited
  with it gets NaN league points. League points are \<open>int\<close> in this model, so that outcome is
  the value \<open>PointsNaN\<close> and no state.
\<close>

datatype failure = Round3Missing | PointsNaN

definition basePoints :: "nat \<Rightarrow> int option" where
  "basePoints i =
     (if i < length BRACKET_BASE_POINTS then Some (BRACKET_BASE_POINTS ! i) else None)"

definition hiPts :: "nat \<Rightarrow> int option" where
  "hiPts i = map_option (\<lambda>base. base + (if i = 0 then FIRST_PLACE_BONUS else 0)) (basePoints i)"

definition loPts :: "nat \<Rightarrow> int option" where
  "loPts i = map_option (\<lambda>base. base - LOSER_POINT_PENALTY) (basePoints i)"

definition findPlayerByName :: "player list \<Rightarrow> string \<Rightarrow> player option" where
  "findPlayerByName ps n = find (\<lambda>p. name p = n) ps"

definition credit :: "int \<Rightarrow> stats \<Rightarrow> player \<Rightarrow> player" where
  "credit p b x =
     x\<lparr>league := (league x)\<lparr>pts := pts (league x) + p, w := w (league x) + w b,
                            l := l (league x) + l b, pd := pd (league x) + pd b\<rparr>\<rparr>"

text \<open>
  \<^verbatim>\<open>State.findPlayerByName(pName)\<close> is the first player of that name; the four
  assignments change that object in place. An unknown name is skipped with a warning.
\<close>

fun awardPlayer :: "string \<Rightarrow> int option \<Rightarrow> stats \<Rightarrow> player list \<Rightarrow> failure + player list" where
  "awardPlayer pName award b [] = Inr []"
| "awardPlayer pName award b (x # xs) =
     (if name x = pName then
        (case award of None \<Rightarrow> Inl PointsNaN | Some p \<Rightarrow> Inr (credit p b x # xs))
      else (case awardPlayer pName award b xs of
              Inl e \<Rightarrow> Inl e
            | Inr xs' \<Rightarrow> Inr (x # xs')))"

fun awardTeam :: "int option \<Rightarrow> stats \<Rightarrow> string list \<Rightarrow> player list \<Rightarrow> failure + player list" where
  "awardTeam award b [] ps = Inr ps"
| "awardTeam award b (pName # rest) ps =
     (case awardPlayer pName award b ps of
        Inl e \<Rightarrow> Inl e
      | Inr ps' \<Rightarrow> awardTeam award b rest ps')"

definition hiTeamOf :: "store \<Rightarrow> ref \<times> ref \<Rightarrow> ref" where
  "hiTeamOf h pair = (case pair of (a, b) \<Rightarrow> if w (bracket (h a)) > w (bracket (h b)) then a else b)"

definition loTeamOf :: "store \<Rightarrow> ref \<times> ref \<Rightarrow> ref" where
  "loTeamOf h pair = (case pair of (a, b) \<Rightarrow> if hiTeamOf h pair = a then b else a)"

fun awardPairs :: "store \<Rightarrow> nat \<Rightarrow> (ref \<times> ref) list \<Rightarrow> player list \<Rightarrow> failure + player list" where
  "awardPairs h i [] ps = Inr ps"
| "awardPairs h i (pair # rest) ps =
     (let hiTeam = h (hiTeamOf h pair); loTeam = h (loTeamOf h pair)
      in case awardTeam (hiPts i) (bracket hiTeam) (players hiTeam) ps of
           Inl e \<Rightarrow> Inl e
         | Inr ps1 \<Rightarrow>
             (case awardTeam (loPts i) (bracket loTeam) (players loTeam) ps1 of
                Inl e \<Rightarrow> Inl e
              | Inr ps2 \<Rightarrow> awardPairs h (Suc i) rest ps2))"

definition resetTeam :: "store \<Rightarrow> ref \<Rightarrow> store" where
  "resetTeam h t =
     h(t := (h t)\<lparr>swiss := \<lparr>w = 0, l = 0, pd = 0, opps = [], h2h = [], playR4 = False\<rparr>,
                  bracket := \<lparr>w = 0, l = 0, pd = 0\<rparr>\<rparr>)"

definition finalizeWeek :: "state \<Rightarrow> failure + state" where
  "finalizeWeek st =
     (if length (bracketRounds st) \<le> 2 \<or> bracketRounds st ! 2 = [] then Inl Round3Missing
      else (case awardPairs (heap st) 0 (bracketRounds st ! 2) (playerList st) of
              Inl e \<Rightarrow> Inl e
            | Inr ps \<Rightarrow> Inr (st\<lparr>playerList := ps, heap := foldl resetTeam (heap st) (teams st)\<rparr>)))"

definition isLeagueComplete :: "state \<Rightarrow> bool" where
  "isLeagueComplete st = (week st \<ge> TOTAL_WEEKS)"

definition nextWeek :: "state \<Rightarrow> state" where
  "nextWeek st =
     (if isLeagueComplete st then st
      else st\<lparr>week := week st + 1, swissRound := 0\<rparr>)"

subsection \<open>\<^verbatim>\<open>sorting.js\<close>: the league comparator\<close>

text \<open>
  The last tier is \<^verbatim>\<open>a.name.localeCompare(b.name)\<close>. \<^verbatim>\<open>String.prototype.localeCompare\<close> is
  a built-in of the platform, not code of the repository: it compares by the collation of
  the default locale of the browser, not by the codes of the characters, and returns a
  negative number, zero or a positive number. The comparator is therefore a function of
  the comparison \<open>localeCompare\<close> that the platform supplies.
\<close>

definition comparePlayersByLeague :: "(string \<Rightarrow> string \<Rightarrow> int) \<Rightarrow> player \<Rightarrow> player \<Rightarrow> int" where
  "comparePlayersByLeague localeCompare a b =
     (if pts (league b) \<noteq> pts (league a) then pts (league b) - pts (league a)
      else if w (league b) \<noteq> w (league a) then w (league b) - w (league a)
      else if pd (league b) \<noteq> pd (league a) then pd (league b) - pd (league a)
      else localeCompare (name a) (name b))"

subsection \<open>Notions used in the statements and proofs\<close>

text \<open>The effect of one or several assignments of \<^verbatim>\<open>applyScore\<close> on a single team object.\<close>

definition bump :: "bool \<Rightarrow> int \<Rightarrow> int \<Rightarrow> int \<Rightarrow> team \<Rightarrow> team" where
  "bump s dw dl dpd t =
     (if s then t\<lparr>swiss := (swiss t)\<lparr>w := w (swiss t) + dw, l := l (swiss t) + dl,
                                      pd := pd (swiss t) + dpd\<rparr>\<rparr>
      else t\<lparr>bracket := (bracket t)\<lparr>w := w (bracket t) + dw, l := l (bracket t) + dl,
                                       pd := pd (bracket t) + dpd\<rparr>\<rparr>)"

fun integerValued :: "js_value \<Rightarrow> bool" where
  "integerValued (JNumber (Finite x)) = isInteger x"
| "integerValued _ = False"

text \<open>
  The members of a list of pairs, in order. \<open>rematch h a b\<close> is the test of the source,
  \<^verbatim>\<open>a.swiss.opps.includes(b.name)\<close>; two teams have played each other by the records
  when either list holds the other's name.
\<close>

fun flat :: "(ref \<times> ref) list \<Rightarrow> ref list" where
  "flat [] = []"
| "flat ((x, y) # ps) = x # y # flat ps"

definition rematch :: "store \<Rightarrow> ref \<Rightarrow> ref \<Rightarrow> bool" where
  "rematch h a b = (name (h b) \<in> set (opps (swiss (h a))))"

definition played :: "store \<Rightarrow> ref \<Rightarrow> ref \<Rightarrow> bool" where
  "played h a b = (rematch h a b \<or> rematch h b a)"

text \<open>
  A perfect matching of a pool: the pool lists each team once, and the pairs are disjoint
  and have exactly the teams of the pool as members.
\<close>

definition perfectMatching :: "ref list \<Rightarrow> (ref \<times> ref) list \<Rightarrow> bool" where
  "perfectMatching pool ps = (distinct pool \<and> distinct (flat ps) \<and> set (flat ps) = set pool)"

definition noRematch :: "store \<Rightarrow> (ref \<times> ref) list \<Rightarrow> bool" where
  "noRematch h ps = list_all (\<lambda>(a, b). \<not> rematch h a b) ps"

definition rematchFree :: "store \<Rightarrow> (ref \<times> ref) list \<Rightarrow> bool" where
  "rematchFree h ps = list_all (\<lambda>(x, y). \<not> played h x y) ps"

text \<open>What a successful search has added to \<open>used\<close> and \<open>result\<close>.\<close>

definition grown ::
  "store \<Rightarrow> ref list \<Rightarrow> ref set \<Rightarrow> (ref \<times> ref) list \<Rightarrow> ref set \<Rightarrow> (ref \<times> ref) list \<Rightarrow> bool" where
  "grown h pool used result u r =
     (\<exists>ps. r = result @ ps \<and> distinct (flat ps) \<and> set (flat ps) \<inter> used = {}
        \<and> u = used \<union> set (flat ps) \<and> set (flat ps) \<subseteq> set pool
        \<and> noRematch h ps \<and> card u = length pool)"

text \<open>The teams of the pool not yet used can be paired off without a rematch.\<close>

definition matchable :: "store \<Rightarrow> ref list \<Rightarrow> ref set \<Rightarrow> bool" where
  "matchable h pool used =
     (\<exists>M. distinct (flat M) \<and> set (flat M) = set pool - used \<and> rematchFree h M)"

text \<open>
  \<^verbatim>\<open>Array.prototype.sort\<close> places \<open>a\<close> before \<open>b\<close> when the comparator is negative.
  \<open>leagueKeyBefore\<close> is the ranking by tiers: points descending, then wins descending, then
  point differential descending, then the name that the platform's comparison \<open>lc\<close> puts
  first.
\<close>

definition ranksBefore :: "(string \<Rightarrow> string \<Rightarrow> int) \<Rightarrow> player \<Rightarrow> player \<Rightarrow> bool" where
  "ranksBefore lc a b = (comparePlayersByLeague lc a b < 0)"

definition leagueKeyBefore :: "(string \<Rightarrow> string \<Rightarrow> int) \<Rightarrow> player \<Rightarrow> player \<Rightarrow> bool" where
  "leagueKeyBefore lc a b =
     (pts (league a) > pts (league b)
      \<or> (pts (league a) = pts (league b)
          \<and> (w (league a) > w (league b)
              \<or> (w (league a) = w (league b)
                  \<and> (pd (league a) > pd (league b)
                      \<or> (pd (league a) = pd (league b) \<and> lc (name a) (name b) < 0))))))"

text \<open>
  \<open>strictCollation lc S\<close>: on the names of \<open>S\<close> the comparison \<open>lc\<close> is a strict total order.
  It returns zero for equal names only, swapping its arguments swaps negative and positive,
  and the names it puts before one another form a chain.
\<close>

definition strictCollation :: "(string \<Rightarrow> string \<Rightarrow> int) \<Rightarrow> string set \<Rightarrow> bool" where
  "strictCollation lc S =
     ((\<forall>x \<in> S. \<forall>y \<in> S. (lc x y = 0) = (x = y))
      \<and> (\<forall>x \<in> S. \<forall>y \<in> S. (lc x y < 0) = (lc y x > 0))
      \<and> (\<forall>x \<in> S. \<forall>y \<in> S. \<forall>z \<in> S. lc x y < 0 \<longrightarrow> lc y z < 0 \<longrightarrow> lc x z < 0))"

text \<open>
  Week finalization. \<open>credited award b q q'\<close>: the player \<open>q'\<close> is \<open>q\<close> with \<open>award\<close> added
  to the league points and the wins, losses and differential of the block \<open>b\<close> added to the
  league record. \<open>awarded before after award b n\<close>: the player found under the name \<open>n\<close>
  after finalization is the one found before, credited so (and none if there was none).
  \<open>rosterNames\<close> lists the player names of the rosters of a round's teams.
\<close>

definition credited :: "int \<Rightarrow> stats \<Rightarrow> player \<Rightarrow> player \<Rightarrow> bool" where
  "credited award b q q' =
     (name q' = name q \<and> team q' = team q
      \<and> pts (league q') = pts (league q) + award
      \<and> w (league q') = w (league q) + w b
      \<and> l (league q') = l (league q) + l b
      \<and> pd (league q') = pd (league q) + pd b)"

definition awarded :: "player list \<Rightarrow> player list \<Rightarrow> int \<Rightarrow> stats \<Rightarrow> string \<Rightarrow> bool" where
  "awarded before after award b n =
     (case findPlayerByName before n of
        None \<Rightarrow> findPlayerByName after n = None
      | Some q \<Rightarrow>
          (case findPlayerByName after n of
             None \<Rightarrow> False
           | Some q' \<Rightarrow> credited award b q q'))"

definition rosterNames :: "store \<Rightarrow> (ref \<times> ref) list \<Rightarrow> string list" where
  "rosterNames h r3 = concat (map (\<lambda>(a, b). players (h a) @ players (h b)) r3)"

text \<open>
  The awards of a round as a sequence of single credits, each to the first player of a
  name, in the order in which the loops of \<^verbatim>\<open>finalizeWeek\<close> make them.
\<close>

fun creditFirst :: "string \<Rightarrow> int \<Rightarrow> stats \<Rightarrow> player list \<Rightarrow> player list" where
  "creditFirst n p b [] = []"
| "creditFirst n p b (x # xs) =
     (if name x = n then credit p b x # xs else x # creditFirst n p b xs)"

definition applyEvents :: "(string \<times> int \<times> stats) list \<Rightarrow> player list \<Rightarrow> player list" where
  "applyEvents evs ps = foldl (\<lambda>ps (n, p, b). creditFirst n p b ps) ps evs"

definition hiAward :: "nat \<Rightarrow> int" where
  "hiAward i = BRACKET_BASE_POINTS ! i + (if i = 0 then FIRST_PLACE_BONUS else 0)"

definition loAward :: "nat \<Rightarrow> int" where
  "loAward i = BRACKET_BASE_POINTS ! i - LOSER_POINT_PENALTY"

fun events :: "store \<Rightarrow> nat \<Rightarrow> (ref \<times> ref) list \<Rightarrow> (string \<times> int \<times> stats) list" where
  "events h i [] = []"
| "events h i (pair # rest) =
     map (\<lambda>n. (n, hiAward i, bracket (h (hiTeamOf h pair)))) (players (h (hiTeamOf h pair)))
     @ map (\<lambda>n. (n, loAward i, bracket (h (loTeamOf h pair)))) (players (h (loTeamOf h pair)))
     @ events h (Suc i) rest"

subsection \<open>Example data\<close>

definition newTeam :: "string \<Rightarrow> string list \<Rightarrow> team" where
  "newTeam n ps =
     \<lparr>name = n, players = ps,
      swiss = \<lparr>w = 0, l = 0, pd = 0, opps = [], h2h = [], playR4 = False\<rparr>,
      bracket = \<lparr>w = 0, l = 0, pd = 0\<rparr>\<rparr>"

definition twoTeams :: store where
  "twoTeams = (\<lambda>_. newTeam ''Spare'' [])(0 := newTeam ''Aces'' [''Ann'', ''Abe''],
                                          1 := newTeam ''Bats'' [''Bea'', ''Bob''])"

definition teamWith :: "string \<Rightarrow> string list \<Rightarrow> string list \<Rightarrow> team" where
  "teamWith n ps os =
     \<lparr>name = n, players = ps,
      swiss = \<lparr>w = 0, l = 0, pd = 0, opps = os, h2h = [], playR4 = False\<rparr>,
      bracket = \<lparr>w = 0, l = 0, pd = 0\<rparr>\<rparr>"

text \<open>
  Four teams: Aces and Dots have played, and Cubs and Dots have played. Pairing Aces with
  Bats first leaves Cubs against Dots, a rematch, so the search has to take that pair back.
\<close>

definition fourTeams :: store where
  "fourTeams = (\<lambda>_. teamWith ''Spare'' [] [])
     (10 := teamWith ''Aces'' [''Ann'', ''Abe''] [''Dots''],
      11 := teamWith ''Bats'' [''Bea'', ''Bob''] [],
      12 := teamWith ''Cubs'' [''Cat'', ''Cy''] [''Dots''],
      13 := teamWith ''Dots'' [''Dan'', ''Di''] [''Aces'', ''Cubs''])"

text \<open>A week in its first Swiss round with two matches still open.\<close>

definition roundOneOpen :: state where
  "roundOneOpen =
     \<lparr>week = 1, teams = [10, 11, 12, 13], playerList = [], swissRound = 1, pending = 2,
      bracketRounds = [], heap = fourTeams\<rparr>"

definition teamR4 :: "string \<Rightarrow> int \<Rightarrow> int \<Rightarrow> string list \<Rightarrow> team" where
  "teamR4 n wins losses os =
     \<lparr>name = n, players = [],
      swiss = \<lparr>w = wins, l = losses, pd = 0, opps = os, h2h = [], playR4 = True\<rparr>,
      bracket = \<lparr>w = 0, l = 0, pd = 0\<rparr>\<rparr>"

text \<open>
  After round 3 with four teams marked for round 4, Aces and Bats at 2-1, Cubs and Dots at
  1-2; and a state in which only two teams carry the mark.
\<close>

definition fourMarked :: state where
  "fourMarked =
     \<lparr>week = 1, teams = [10, 11, 12, 13], playerList = [], swissRound = 3, pending = 0,
      bracketRounds = [],
      heap = (\<lambda>_. teamWith ''Spare'' [] [])
        (10 := teamR4 ''Aces'' 2 1 [''Eels'', ''Foxes'', ''Cubs''],
         11 := teamR4 ''Bats'' 2 1 [''Gnus'', ''Hens'', ''Dots''],
         12 := teamR4 ''Cubs'' 1 2 [''Foxes'', ''Eels'', ''Aces''],
         13 := teamR4 ''Dots'' 1 2 [''Hens'', ''Gnus'', ''Bats''])\<rparr>"

definition twoMarked :: state where
  "twoMarked =
     \<lparr>week = 1, teams = [10, 11], playerList = [], swissRound = 3, pending = 0,
      bracketRounds = [],
      heap = (\<lambda>_. teamWith ''Spare'' [] [])
        (10 := teamR4 ''Aces'' 2 1 [''Eels'', ''Foxes'', ''Cubs''],
         11 := teamR4 ''Bats'' 1 2 [''Gnus'', ''Hens'', ''Dots''])\<rparr>"

text \<open>A fresh Swiss match between the teams 10 and 11 of a round with two open matches.\<close>

definition openRound :: state where
  "openRound =
     \<lparr>week = 1, teams = [10, 11], playerList = [], swissRound = 1, pending = 2,
      bracketRounds = [],
      heap = (\<lambda>_. teamWith ''Spare'' [] [])
        (10 := teamWith ''Aces'' [''Ann'', ''Abe''] [],
         11 := teamWith ''Bats'' [''Bea'', ''Bob''] [])\<rparr>"

text \<open>
  The first successful submission of that match with the scores 11 and 3, once through the
  admin override and once through the submit button.
\<close>

definition adminFirst :: "state \<times> match" where
  "adminFirst = adminClick openRound (makeMatch 10 11 True) (Some (Some 11)) (Some (Some 3))"

definition submitFirst :: "state \<times> match" where
  "submitFirst = submitClick openRound (makeMatch 10 11 True) (Some 11) (Some 3)"

text \<open>
  The comparison that the platform makes, in an English locale, of names written in
  unaccented Latin letters: the names are compared letter by letter without regard to
  case, a proper prefix first; two names that differ in case only are ordered by their
  first differing letter, the lower-case letter first. So \<^verbatim>\<open>'abe'.localeCompare('Ann')\<close> and
  \<^verbatim>\<open>'a'.localeCompare('B')\<close> are negative, although \<open>A\<close> and \<open>B\<close> have smaller codes than \<open>a\<close>.
\<close>

definition foldCase :: "char \<Rightarrow> char" where
  "foldCase c =
     (if CHR ''A'' \<le> c \<and> c \<le> CHR ''Z'' then char_of (of_char c + (32 :: nat)) else c)"

definition letterCollation :: "string \<Rightarrow> string \<Rightarrow> int" where
  "letterCollation a b =
     (let fa = map foldCase a; fb = map foldCase b
      in if fa < fb then - 1 else if fb < fa then 1
         else if b < a then - 1 else if a < b then 1 else 0)"

text \<open>
  Players level on points, wins and differential, told apart by name only (by the codes of
  the characters \<open>Ann\<close>, \<open>Zed\<close>, \<open>abe\<close>: an upper-case letter has a smaller code than every
  lower-case letter); one ahead on differential, one on wins, one on points.
\<close>

definition mkPlayer :: "string \<Rightarrow> string \<Rightarrow> int \<Rightarrow> int \<Rightarrow> int \<Rightarrow> int \<Rightarrow> player" where
  "mkPlayer n t p wins losses diff =
     \<lparr>name = n, team = t, league = \<lparr>w = wins, l = losses, pd = diff, pts = p\<rparr>\<rparr>"

definition playerAnn :: player where
  "playerAnn = mkPlayer ''Ann'' ''Aces'' 15 3 0 10"

definition playerZed :: player where
  "playerZed = mkPlayer ''Zed'' ''Bats'' 15 3 1 10"

definition playerAbe :: player where
  "playerAbe = mkPlayer ''abe'' ''Aces'' 15 3 0 10"

definition playerBob :: player where
  "playerBob = mkPlayer ''Bob'' ''Bats'' 15 3 1 12"

definition playerCat :: player where
  "playerCat = mkPlayer ''Cat'' ''Cubs'' 15 4 2 (- 7)"

definition playerDan :: player where
  "playerDan = mkPlayer ''Dan'' ''Dots'' 21 0 3 (- 30)"

text \<open>
  The end of week 1: bracket round 3 has been played. Aces beat Bats in the final, Cubs
  (listed second in their pair) beat Dots for third place, Eels beat Foxes, Gnus beat Hens.
  Ann and Hal already have league records.
\<close>

definition teamB :: "string \<Rightarrow> string list \<Rightarrow> int \<Rightarrow> int \<Rightarrow> int \<Rightarrow> team" where
  "teamB n ps wins losses diff =
     \<lparr>name = n, players = ps,
      swiss = \<lparr>w = 3, l = 1, pd = 9, opps = [''Aces'', ''Bats'', ''Cubs'', ''Dots''], h2h = [],
               playR4 = False\<rparr>,
      bracket = \<lparr>w = wins, l = losses, pd = diff\<rparr>\<rparr>"

definition finalRound :: "(ref \<times> ref) list" where
  "finalRound = [(20, 21), (23, 22), (24, 25), (26, 27)]"

definition weekEndHeap :: store where
  "weekEndHeap = (\<lambda>_. teamWith ''Spare'' [] [])
     (20 := teamB ''Aces'' [''Ann'', ''Abe''] 3 0 21,
      21 := teamB ''Bats'' [''Bea'', ''Bob''] 2 1 5,
      22 := teamB ''Cubs'' [''Cat'', ''Cy''] 2 1 3,
      23 := teamB ''Dots'' [''Dan'', ''Di''] 1 2 (- 4),
      24 := teamB ''Eels'' [''Eve'', ''Ed''] 2 1 2,
      25 := teamB ''Foxes'' [''Fay'', ''Fox''] 1 2 (- 6),
      26 := teamB ''Gnus'' [''Gus'', ''Gil''] 1 2 (- 8),
      27 := teamB ''Hens'' [''Hal'', ''Hob''] 0 3 (- 13))"

definition weekEnd :: state where
  "weekEnd =
     \<lparr>week = 1, teams = [20, 21, 22, 23, 24, 25, 26, 27],
      playerList =
        [mkPlayer ''Ann'' ''Aces'' 30 5 1 12, mkPlayer ''Abe'' ''Aces'' 0 0 0 0,
         mkPlayer ''Bea'' ''Bats'' 0 0 0 0, mkPlayer ''Bob'' ''Bats'' 0 0 0 0,
         mkPlayer ''Cat'' ''Cubs'' 0 0 0 0, mkPlayer ''Cy'' ''Cubs'' 0 0 0 0,
         mkPlayer ''Dan'' ''Dots'' 0 0 0 0, mkPlayer ''Di'' ''Dots'' 0 0 0 0,
         mkPlayer ''Eve'' ''Eels'' 0 0 0 0, mkPlayer ''Ed'' ''Eels'' 0 0 0 0,
         mkPlayer ''Fay'' ''Foxes'' 0 0 0 0, mkPlayer ''Fox'' ''Foxes'' 0 0 0 0,
         mkPlayer ''Gus'' ''Gnus'' 0 0 0 0, mkPlayer ''Gil'' ''Gnus'' 0 0 0 0,
         mkPlayer ''Hal'' ''Hens'' 7 1 2 (- 3), mkPlayer ''Hob'' ''Hens'' 0 0 0 0],
      swissRound = 4, pending = 0,
      bracketRounds = [[(20, 27), (23, 24), (21, 26), (22, 25)],
                       [(20, 24), (21, 22), (27, 23), (26, 25)],
                       finalRound],
      heap = weekEndHeap\<rparr>"

text \<open>
  A round 3 whose single pair has equal bracket wins: Ibis, listed first, and Jets.
\<close>

definition tiedFinal :: state where
  "tiedFinal =
     \<lparr>week = 1, teams = [30, 31],
      playerList = [mkPlayer ''Ivy'' ''Ibis'' 0 0 0 0, mkPlayer ''Jay'' ''Jets'' 0 0 0 0],
      swissRound = 4, pending = 0,
      bracketRounds = [[], [], [(30, 31)]],
      heap = (\<lambda>_. teamWith ''Spare'' [] [])
        (30 := teamB ''Ibis'' [''Ivy''] 2 1 9,
         31 := teamB ''Jets'' [''Jay''] 2 1 4)\<rparr>"

section \<open>Score validation\<close>

text \<open>
  C6. \<^verbatim>\<open>isValidScore\<close> never tests that a score is an integer: it accepts 11.5 against 3,
  which the stated condition (both scores non-negative integers at most 99) rejects.
\<close>

theorem isValidScore_accepts_fraction:
  "isValidScore (JNumber (Finite (23 / 2))) (JNumber (Finite 3))
   \<and> \<not> specValidScore (JNumber (Finite (23 / 2))) (JNumber (Finite 3))"
proof -
  have "\<not> isInteger (23 / 2)"
    by code_simp
  then show ?thesis
    by (simp add: js_gt_def)
qed

lemma isValidScore_numbers:
  "isValidScore (JNumber x) (JNumber y) = rangeValidScore (JNumber x) (JNumber y)"
  by (cases x; cases y) (auto simp: js_gt_def max_def min_def abs_if)

lemma specValidScore_numbers:
  "specValidScore (JNumber x) (JNumber y) =
     (rangeValidScore (JNumber x) (JNumber y) \<and> integerValued (JNumber x) \<and> integerValued (JNumber y))"
  by (cases x; cases y) auto

text \<open>
  C6, as the code has it. \<^verbatim>\<open>isValidScore\<close> is true exactly when both arguments are
  numbers other than NaN with \<open>0 \<le> score \<le> 99\<close>, the larger is at least 11 and they are at
  least 2 apart; whether they are integers is not examined. The stated condition is this
  one together with integrality of both scores, so the two agree on every pair of integers,
  which is all that the callers pass (they parse the input with \<^verbatim>\<open>parseInt\<close>).
\<close>

theorem isValidScore_iff:
  "isValidScore a b = rangeValidScore a b
   \<and> specValidScore a b = (isValidScore a b \<and> integerValued a \<and> integerValued b)"
proof (cases a)
  case (JNumber x)
  show ?thesis
  proof (cases b)
    case (JNumber y)
    show ?thesis
      unfolding \<open>a = JNumber x\<close> \<open>b = JNumber y\<close>
      using isValidScore_numbers [of x y] specValidScore_numbers [of x y] by blast
  qed (simp_all add: JNumber)
qed simp_all

section \<open>Applying and re-applying a score\<close>

lemma bump_bump: "bump s a b c (bump s a' b' c' t) = bump s (a + a') (b + b') (c + c') t"
  by (simp add: bump_def)

lemma bump_zero: "bump s 0 0 0 t = t"
  by (simp add: bump_def)

lemma addW_bump: "addW s r d h = h(r := bump s d 0 0 (h r))"
  by (simp add: addW_def bump_def)

lemma addL_bump: "addL s r d h = h(r := bump s 0 d 0 (h r))"
  by (simp add: addL_def bump_def)

lemma addPd_bump: "addPd s r d h = h(r := bump s 0 0 d (h r))"
  by (simp add: addPd_def bump_def)

lemma applyScore_fresh:
  "fst (applyScore h a b sa sb s None) =
     (if a = b then h(a := bump s 1 1 0 (h a))
      else if sa > sb then h(a := bump s 1 0 (sa - sb) (h a), b := bump s 0 1 (sb - sa) (h b))
      else h(a := bump s 0 1 (sa - sb) (h a), b := bump s 1 0 (sb - sa) (h b)))"
  by (auto simp: applyScore_def undoLast_def addW_bump addL_bump addPd_bump bump_bump fun_eq_iff)

lemma undoLast_Some:
  "sa \<noteq> sb \<Longrightarrow> undoLast a b s (Some (sa, sb)) h =
     (if a = b then h(a := bump s (- 1) (- 1) 0 (h a))
      else if sa > sb then h(a := bump s (- 1) 0 (sb - sa) (h a), b := bump s 0 (- 1) (sa - sb) (h b))
      else h(a := bump s 0 (- 1) (sb - sa) (h a), b := bump s (- 1) 0 (sa - sb) (h b)))"
  by (auto simp: undoLast_def addW_bump addL_bump addPd_bump bump_bump fun_eq_iff)

lemma applyScore_snd: "snd (applyScore h a b sa sb s r) = Some (sa, sb)"
  by (simp add: applyScore_def Let_def)

lemma applyScore_undo:
  "fst (applyScore h a b sa sb s r) = fst (applyScore (undoLast a b s r h) a b sa sb s None)"
  by (simp add: applyScore_def undoLast_def Let_def)

lemma undo_fresh:
  assumes "sa \<noteq> sb"
  shows "undoLast a b s (Some (sa, sb)) (fst (applyScore h a b sa sb s None)) = h"
  using assms
  by (auto simp: undoLast_Some applyScore_fresh bump_bump bump_zero fun_eq_iff)

text \<open>
  C2. A first result \<open>(sa1, sb1)\<close> with \<open>sa1 \<noteq> sb1\<close> is applied to any store; the value that
  call returns is then passed as the undo baseline of a second call with \<open>(sa2, sb2)\<close>. The
  store that results is the store obtained by applying \<open>(sa2, sb2)\<close> alone to the initial
  store: every field of every team agrees, for the Swiss and for the bracket phase.
\<close>

theorem applyScore_resubmit:
  assumes "sa1 \<noteq> sb1"
  shows "fst (applyScore (fst (applyScore h a b sa1 sb1 isSwiss None)) a b sa2 sb2 isSwiss
               (snd (applyScore h a b sa1 sb1 isSwiss None)))
         = fst (applyScore h a b sa2 sb2 isSwiss None)"
proof -
  have "fst (applyScore (fst (applyScore h a b sa1 sb1 isSwiss None)) a b sa2 sb2 isSwiss
               (Some (sa1, sb1)))
        = fst (applyScore (undoLast a b isSwiss (Some (sa1, sb1))
                 (fst (applyScore h a b sa1 sb1 isSwiss None))) a b sa2 sb2 isSwiss None)"
    by (rule applyScore_undo)
  also have "\<dots> = fst (applyScore h a b sa2 sb2 isSwiss None)"
    by (simp only: undo_fresh [OF assms])
  finally show ?thesis
    by (simp only: applyScore_snd)
qed

theorem applyScore_resubmit_witness:
  "(11 :: int) \<noteq> 3
   \<and> fst (applyScore (fst (applyScore twoTeams 0 1 11 3 True None)) 0 1 9 11 True
            (snd (applyScore twoTeams 0 1 11 3 True None)))
     = fst (applyScore twoTeams 0 1 9 11 True None)
   \<and> w (swiss (fst (applyScore twoTeams 0 1 9 11 True None) 0)) = 0
   \<and> l (swiss (fst (applyScore twoTeams 0 1 9 11 True None) 0)) = 1
   \<and> pd (swiss (fst (applyScore twoTeams 0 1 9 11 True None) 0)) = - 2"
proof -
  have ne: "(11 :: int) \<noteq> 3"
    by simp
  have "w (swiss (fst (applyScore twoTeams 0 1 9 11 True None) 0)) = 0"
       "l (swiss (fst (applyScore twoTeams 0 1 9 11 True None) 0)) = 1"
       "pd (swiss (fst (applyScore twoTeams 0 1 9 11 True None) 0)) = - 2"
    by (simp_all add: applyScore_fresh bump_def twoTeams_def newTeam_def)
  with ne applyScore_resubmit [OF ne, of twoTeams 0 1 True 9 11] show ?thesis
    by simp
qed

section \<open>Recording opponents\<close>

text \<open>
  A score that \<^verbatim>\<open>parseInt\<close> could not read is NaN and never valid; this is the last
  equation of both handlers.
\<close>

lemma isValidScore_NaN: "\<not> isValidScore (parsed None) x" "\<not> isValidScore x (parsed None)"
  by (cases x; simp)+

text \<open>
  C1. The admin override can be the first successful submission of a match: it decrements
  \<open>pending\<close> and sets \<^verbatim>\<open>done\<close> like the submit handler, but it has no counterpart of the
  block that pushes the opponent names. For a fresh Swiss match between Aces and Bats, an
  admin override of 11 to 3 counts the match as completed, gives Aces the win and Bats the
  loss, disables the submit button, and leaves both opponents lists empty with
  \<^verbatim>\<open>oppsRecorded\<close> still false; the submit handler on the same input records Bats for
  Aces and Aces for Bats.
\<close>

theorem adminClick_first_records_no_opponent:
  "pending openRound = 2 \<and> pending (fst adminFirst) = 1
   \<and> isDone (snd adminFirst) \<and> submitDisabled (snd adminFirst)
   \<and> \<not> oppsRecorded (snd adminFirst)
   \<and> w (swiss (heap (fst adminFirst) 10)) = 1 \<and> l (swiss (heap (fst adminFirst) 11)) = 1
   \<and> opps (swiss (heap (fst adminFirst) 10)) = []
   \<and> opps (swiss (heap (fst adminFirst) 11)) = []
   \<and> oppsRecorded (snd submitFirst)
   \<and> opps (swiss (heap (fst submitFirst) 10)) = [''Bats'']
   \<and> opps (swiss (heap (fst submitFirst) 11)) = [''Aces'']"
  by (simp add: adminFirst_def submitFirst_def js_gt_def makeMatch_def applyScore_fresh bump_def
      pushOpp_def openRound_def teamWith_def split_beta applyScore_snd)

text \<open>No admin override, first or later, ever changes an opponents list.\<close>

lemma add_opps:
  "opps (swiss (addW s r d h t)) = opps (swiss (h t))"
  "opps (swiss (addL s r d h t)) = opps (swiss (h t))"
  "opps (swiss (addPd s r d h t)) = opps (swiss (h t))"
  by (simp_all add: addW_def addL_def addPd_def)

lemma applyScore_opps: "opps (swiss (fst (applyScore h a b sa sb s r) t)) = opps (swiss (h t))"
  by (simp add: applyScore_def undoLast_def Let_def add_opps split: option.split prod.split)

lemma adminClick_opps:
  "opps (swiss (heap (fst (adminClick st m x y)) t)) = opps (swiss (heap st t))"
proof (cases x)
  case None
  then show ?thesis by simp
next
  case sx: (Some x')
  show ?thesis
  proof (cases y)
    case None
    then show ?thesis by (simp add: sx)
  next
    case sy: (Some y')
    show ?thesis
      by (cases x'; cases y') (simp_all add: sx sy split_beta Let_def applyScore_opps)
  qed
qed

text \<open>
  Once the submit handler has recorded the opponents of a match, no later submission of
  that match through either handler adds to an opponents list: the submit handler tests
  \<^verbatim>\<open>oppsRecorded\<close>, and the admin handler neither pushes nor changes the flag.
\<close>

lemma submitClick_recorded:
  assumes "oppsRecorded m"
  shows "opps (swiss (heap (fst (submitClick st m x y)) t)) = opps (swiss (heap st t))"
    and "oppsRecorded (snd (submitClick st m x y))"
  using assms by (cases x; cases y; simp add: split_beta Let_def applyScore_opps)+

lemma adminClick_flag: "oppsRecorded (snd (adminClick st m x y)) = oppsRecorded m"
proof (cases x)
  case None
  then show ?thesis by simp
next
  case sx: (Some x')
  show ?thesis
  proof (cases y)
    case None
    then show ?thesis by (simp add: sx)
  next
    case sy: (Some y')
    show ?thesis
      by (cases x'; cases y') (simp_all add: sx sy split_beta Let_def)
  qed
qed

section \<open>Swiss pairing\<close>

lemma flat_append: "flat (ps @ qs) = flat ps @ flat qs"
  by (induction ps rule: flat.induct) auto

lemma grown_step:
  assumes g: "grown h pool (insert b used) (result @ [(a, b)]) u r"
    and a: "a \<in> used" "a \<in> set pool" and b: "b \<notin> used" "b \<in> set pool"
    and nr: "\<not> rematch h a b"
  shows "grown h pool (used - {a}) result u r"
proof -
  from g obtain ps where ps: "r = (result @ [(a, b)]) @ ps" "distinct (flat ps)"
      "set (flat ps) \<inter> insert b used = {}" "u = insert b used \<union> set (flat ps)"
      "set (flat ps) \<subseteq> set pool" "noRematch h ps"
      "card u = length pool"
    unfolding grown_def by blast
  let ?qs = "(a, b) # ps"
  have "r = result @ ?qs" using ps(1) by simp
  moreover have "distinct (flat ?qs)" using ps(2,3) a(1) b(1) by auto
  moreover have "set (flat ?qs) \<inter> (used - {a}) = {}" using ps(3) b(1) by auto
  moreover have "u = (used - {a}) \<union> set (flat ?qs)" using ps(4) a(1) by auto
  moreover have "set (flat ?qs) \<subseteq> set pool" using ps(5) a(2) b(2) by auto
  moreover have "noRematch h ?qs" using ps(6) nr by (simp add: noRematch_def)
  ultimately show ?thesis
    unfolding grown_def using ps(7) by blast
qed

lemma backtrack_outcome:
  "backtrack h pool used result = (ok, u, r) \<Longrightarrow>
     (if ok then grown h pool used result u r else u = used \<and> r = result)"
  "backtrackLoop h pool a bs used result = (ok, u, r) \<Longrightarrow>
     a \<in> used \<Longrightarrow> a \<in> set pool \<Longrightarrow> set bs \<subseteq> set pool \<Longrightarrow>
     (if ok then grown h pool (used - {a}) result u r else u = used - {a} \<and> r = result)"
proof (induct h pool used result and h pool a bs used result arbitrary: ok u r and ok u r
       rule: backtrack_backtrackLoop.induct)
  case (1 h pool used result)
  show ?case
  proof (cases "card used = length pool")
    case True
    with 1(2) have "ok" "u = used" "r = result"
      by (simp_all add: backtrack.simps)
    with True show ?thesis
      by (simp add: grown_def noRematch_def)
  next
    case ne: False
    show ?thesis
    proof (cases "find (\<lambda>t. t \<notin> used) pool")
      case None
      with 1(2) ne show ?thesis
        by (simp add: backtrack.simps)
    next
      case (Some a)
      then have a: "a \<notin> used" "a \<in> set pool"
        by (auto simp: find_Some_iff)
      from 1(2) ne Some have loop: "backtrackLoop h pool a pool (insert a used) result = (ok, u, r)"
        by (simp add: backtrack.simps)
      from a have eq: "insert a used - {a} = used"
        by auto
      have "if ok then grown h pool (insert a used - {a}) result u r
            else u = insert a used - {a} \<and> r = result"
        by (rule 1(1) [OF ne Some loop]) (use a in auto)
      then show ?thesis
        unfolding eq .
    qed
  qed
next
  case (2 h pool a used result)
  then show ?case by auto
next
  case (3 h pool a b bs used result)
  show ?case
  proof (cases "b \<in> used \<or> name (h b) \<in> set (opps (swiss (h a)))")
    case True
    with 3(4) have "backtrackLoop h pool a bs used result = (ok, u, r)"
      by simp
    from 3(1) [OF True this 3(5,6)] 3(7) show ?thesis
      by simp
  next
    case False
    obtain ok' u' r' where res: "backtrack h pool (insert b used) (result @ [(a, b)]) = (ok', u', r')"
      by (cases "backtrack h pool (insert b used) (result @ [(a, b)])") auto
    note nested = 3(2) [OF False res]
    show ?thesis
    proof (cases ok')
      case True
      with 3(4) False res have "ok" "u = u'" "r = r'"
        by simp_all
      moreover from nested True have "grown h pool (insert b used) (result @ [(a, b)]) u' r'"
        by simp
      from grown_step [OF this 3(5,6)] False 3(7)
      have "grown h pool (used - {a}) result u' r'"
        by (simp add: rematch_def)
      ultimately show ?thesis by simp
    next
      case nok: False
      with nested have ur: "u' = insert b used" "r' = result @ [(a, b)]"
        by simp_all
      from False have bu: "insert b used - {b} = used" by auto
      from nok have okF: "ok' = False" by simp
      from 3(4) False res nok
      have cont: "backtrackLoop h pool a bs (u' - {b}) (butlast r') = (ok, u, r)"
        by simp
      from ur bu have eqs: "u' - {b} = used" "butlast r' = result"
        by simp_all
      have "if ok then grown h pool (u' - {b} - {a}) (butlast r') u r
            else u = u' - {b} - {a} \<and> r = butlast r'"
        by (rule 3(3) [OF False res [symmetric] okF refl cont]) (use 3(5,6,7) eqs in auto)
      then show ?thesis
        unfolding eqs .
    qed
  qed
qed

lemma flat_member: "z \<in> set (flat M) \<Longrightarrow> \<exists>x y. (x, y) \<in> set M \<and> (z = x \<or> z = y)"
  by (induction M rule: flat.induct) auto

lemma pair_in_flat: "(x, y) \<in> set ps \<Longrightarrow> x \<in> set (flat ps) \<and> y \<in> set (flat ps)"
  by (induction ps rule: flat.induct) auto

lemma flat_remove1:
  "distinct (flat M) \<Longrightarrow> (x, y) \<in> set M \<Longrightarrow>
     distinct (flat (remove1 (x, y) M)) \<and> set (flat (remove1 (x, y) M)) = set (flat M) - {x, y}
     \<and> x \<noteq> y"
proof (induction M rule: flat.induct)
  case 1
  then show ?case by simp
next
  case (2 x' y' ps)
  show ?case
  proof (cases "(x, y) = (x', y')")
    case True
    with 2(2) show ?thesis by auto
  next
    case False
    with 2(3) have mem: "(x, y) \<in> set ps" by auto
    from 2(2) have "distinct (flat ps)" by simp
    from 2(1) [OF this mem] have ih: "distinct (flat (remove1 (x, y) ps))"
      "set (flat (remove1 (x, y) ps)) = set (flat ps) - {x, y}" "x \<noteq> y"
      by simp_all
    have xy: "x \<in> set (flat ps)" "y \<in> set (flat ps)"
      using pair_in_flat [OF mem] by simp_all
    with 2(2) have "x' \<noteq> x" "x' \<noteq> y" "y' \<noteq> x" "y' \<noteq> y" by auto
    with False ih 2(2) show ?thesis by auto
  qed
qed

lemma rematchFree_remove1: "rematchFree h M \<Longrightarrow> rematchFree h (remove1 p M)"
  by (induction M) (auto simp: rematchFree_def)

lemma rematchFree_member: "rematchFree h M \<Longrightarrow> (x, y) \<in> set M \<Longrightarrow> \<not> played h x y"
  by (auto simp: rematchFree_def list_all_iff)

text \<open>The partner of the first unused team in a matching of the unused teams.\<close>

lemma matchable_partner:
  assumes m: "matchable h pool used" and a: "a \<in> set pool" "a \<notin> used"
  shows "\<exists>b \<in> set pool. b \<notin> insert a used \<and> \<not> rematch h a b
           \<and> matchable h pool (insert b (insert a used))"
proof -
  from m obtain M where M: "distinct (flat M)" "set (flat M) = set pool - used" "rematchFree h M"
    unfolding matchable_def by blast
  from a M(2) have "a \<in> set (flat M)" by simp
  from flat_member [OF this] obtain x y where xy: "(x, y) \<in> set M" "a = x \<or> a = y"
    by blast
  define b where "b = (if a = x then y else x)"
  from flat_remove1 [OF M(1) xy(1)]
  have rm: "distinct (flat (remove1 (x, y) M))"
    "set (flat (remove1 (x, y) M)) = set (flat M) - {x, y}" "x \<noteq> y"
    by simp_all
  from xy(2) rm(3) have ab: "{x, y} = {a, b}" "a \<noteq> b"
    by (auto simp: b_def)
  have "x \<in> set (flat M)" "y \<in> set (flat M)"
    using pair_in_flat [OF xy(1)] by simp_all
  with ab M(2) have b: "b \<in> set pool" "b \<notin> used"
    by auto
  from rematchFree_member [OF M(3) xy(1)] xy(2) have "\<not> rematch h a b"
    by (auto simp: played_def b_def)
  moreover have "matchable h pool (insert b (insert a used))"
    unfolding matchable_def
  proof (intro exI conjI)
    show "distinct (flat (remove1 (x, y) M))" by (rule rm(1))
    show "set (flat (remove1 (x, y) M)) = set pool - insert b (insert a used)"
      using rm(2) M(2) ab(1) by auto
    show "rematchFree h (remove1 (x, y) M)" by (rule rematchFree_remove1 [OF M(3)])
  qed
  ultimately show ?thesis
    using b ab(2) by auto
qed

lemma backtrack_complete:
  "distinct pool \<Longrightarrow> used \<subseteq> set pool \<Longrightarrow> matchable h pool used \<Longrightarrow>
     fst (backtrack h pool used result)"
  "distinct pool \<Longrightarrow> used \<subseteq> set pool \<Longrightarrow> a \<in> used \<Longrightarrow> set bs \<subseteq> set pool \<Longrightarrow>
     \<exists>b \<in> set bs. b \<notin> used \<and> \<not> rematch h a b \<and> matchable h pool (insert b used) \<Longrightarrow>
     fst (backtrackLoop h pool a bs used result)"
proof (induct h pool used result and h pool a bs used result
       rule: backtrack_backtrackLoop.induct)
  case (1 h pool used result)
  show ?case
  proof (cases "card used = length pool")
    case True
    then show ?thesis by (simp add: backtrack.simps)
  next
    case ne: False
    show ?thesis
    proof (cases "find (\<lambda>t. t \<notin> used) pool")
      case None
      then have "set pool \<subseteq> used"
        by (auto simp: find_None_iff)
      with 1(3) have "used = set pool" by auto
      with 1(2) have "card used = length pool"
        by (simp add: distinct_card)
      with ne show ?thesis by simp
    next
      case (Some a)
      then have a: "a \<in> set pool" "a \<notin> used"
        by (auto simp: find_Some_iff)
      have "fst (backtrackLoop h pool a pool (insert a used) result)"
      proof (rule 1(1) [OF ne Some 1(2)])
        show "insert a used \<subseteq> set pool" using a 1(3) by auto
        show "a \<in> insert a used" by simp
        show "set pool \<subseteq> set pool" by simp
        show "\<exists>b\<in>set pool. b \<notin> insert a used \<and> \<not> rematch h a b
                \<and> matchable h pool (insert b (insert a used))"
          by (rule matchable_partner [OF 1(4) a])
      qed
      with ne Some show ?thesis
        by (simp add: backtrack.simps)
    qed
  qed
next
  case (2 h pool a used result)
  then show ?case by simp
next
  case (3 h pool a b bs used result)
  from 3(8) obtain c where c: "c \<in> set (b # bs)" "c \<notin> used" "\<not> rematch h a c"
      "matchable h pool (insert c used)"
    by blast
  show ?case
  proof (cases "b \<in> used \<or> name (h b) \<in> set (opps (swiss (h a)))")
    case True
    with c have "c \<in> set bs"
      by (auto simp: rematch_def)
    with c have ex: "\<exists>b\<in>set bs. b \<notin> used \<and> \<not> rematch h a b \<and> matchable h pool (insert b used)"
      by blast
    have "fst (backtrackLoop h pool a bs used result)"
      by (rule 3(1) [OF True 3(4,5,6) _ ex]) (use 3(7) in auto)
    with True show ?thesis by simp
  next
    case False
    obtain ok' u' r' where res: "backtrack h pool (insert b used) (result @ [(a, b)]) = (ok', u', r')"
      by (cases "backtrack h pool (insert b used) (result @ [(a, b)])") auto
    show ?thesis
    proof (cases ok')
      case True
      with False res show ?thesis by simp
    next
      case nok: False
      have sub: "insert b used \<subseteq> set pool" using 3(5,7) by auto
      have "c \<noteq> b"
      proof
        assume "c = b"
        with c(4) have "matchable h pool (insert b used)" by simp
        from 3(2) [OF False 3(4) sub this] res nok show False by simp
      qed
      with c have ex: "\<exists>b\<in>set bs. b \<notin> used \<and> \<not> rematch h a b \<and> matchable h pool (insert b used)"
        by auto
      from backtrack_outcome(1) [OF res] nok have ur: "u' = insert b used" "r' = result @ [(a, b)]"
        by simp_all
      from False have bu: "insert b used - {b} = used" by auto
      from ur bu have eqs: "u' - {b} = used" "butlast r' = result"
        by simp_all
      from nok have okF: "ok' = False" by simp
      have "fst (backtrackLoop h pool a bs (u' - {b}) (butlast r'))"
        by (rule 3(3) [OF False res [symmetric] okF refl 3(4)]) (use 3(5,6,7) eqs ex in auto)
      with False res nok show ?thesis by simp
    qed
  qed
qed

lemma length_flat: "length (flat ps) = 2 * length ps"
  by (induction ps rule: flat.induct) auto

lemma grown_perfect:
  assumes "grown h pool {} [] u r"
  shows "perfectMatching pool r \<and> noRematch h r"
proof -
  from assms obtain ps where ps: "r = ps" "distinct (flat ps)" "u = set (flat ps)"
      "set (flat ps) \<subseteq> set pool" "noRematch h ps"
      "card u = length pool"
    unfolding grown_def by auto
  have "card (set (flat ps)) \<le> card (set pool)"
    by (rule card_mono) (use ps(4) in auto)
  moreover have "card (set pool) \<le> length pool"
    by (rule card_length)
  ultimately have c: "card (set pool) = length pool" "card (set (flat ps)) = card (set pool)"
    using ps(3,6) by auto
  from c(1) have "distinct pool"
    by (rule card_distinct)
  moreover have "set (flat ps) = set pool"
    by (rule card_subset_eq) (use ps(4) c(2) in auto)
  ultimately show ?thesis
    using ps(1,2,5) by (simp add: perfectMatching_def)
qed

lemma swissPair_cases:
  "swissPair h pool = [] \<or> (perfectMatching pool (swissPair h pool) \<and> noRematch h (swissPair h pool))"
proof (cases "length pool < 2")
  case True
  then show ?thesis by (simp add: swissPair_def)
next
  case False
  obtain ok u r where res: "backtrack h pool {} [] = (ok, u, r)"
    by (cases "backtrack h pool {} []") auto
  from False res have sp: "swissPair h pool = r"
    by (simp add: swissPair_def)
  show ?thesis
  proof (cases ok)
    case True
    with backtrack_outcome(1) [OF res] have "grown h pool {} [] u r" by simp
    from grown_perfect [OF this] sp show ?thesis by simp
  next
    case False
    with backtrack_outcome(1) [OF res] sp show ?thesis by simp
  qed
qed

lemma perfectMatching_even: "perfectMatching pool ps \<Longrightarrow> length pool = 2 * length ps"
proof -
  assume "perfectMatching pool ps"
  then have "distinct pool" "distinct (flat ps)" "set (flat ps) = set pool"
    by (simp_all add: perfectMatching_def)
  then have "length pool = length (flat ps)"
    by (metis distinct_card)
  then show ?thesis by (simp add: length_flat)
qed

lemma noRematch_symmetric:
  assumes pm: "perfectMatching pool ps" and nr: "noRematch h ps"
    and s: "\<forall>x \<in> set pool. \<forall>y \<in> set pool. rematch h x y \<longrightarrow> rematch h y x"
  shows "rematchFree h ps"
  unfolding rematchFree_def list_all_iff
proof (intro ballI, clarify)
  fix a b assume ab: "(a, b) \<in> set ps" and p: "played h a b"
  from pair_in_flat [OF ab] pm have "a \<in> set pool" "b \<in> set pool"
    by (simp_all add: perfectMatching_def)
  with s p have "rematch h a b"
    by (auto simp: played_def)
  with nr ab show False
    by (auto simp: noRematch_def list_all_iff)
qed

text \<open>
  C10. For every store and pool, \<^verbatim>\<open>swissPair\<close> returns the empty list or a perfect
  matching of the whole pool in which no pair \<open>[a, b]\<close> fails the rematch test of the source
  (the opponents list of \<open>a\<close> does not hold the name of \<open>b\<close>); it never returns part of a
  pairing. So it returns the empty list when the pool has no perfect matching passing that
  test, when the pool has odd size, and when it has fewer than two teams; and when the
  opponents lists of the pool are symmetric, it returns the empty list whenever the pool has
  no perfect matching of teams that have not played each other. The reason is the last
  conjunct: a call of \<^verbatim>\<open>backtrack\<close> that returns \<^verbatim>\<open>false\<close> leaves \<open>used\<close> and
  \<open>result\<close> exactly as it found them.
\<close>

theorem swissPair_all_or_nothing:
  "(swissPair h pool = [] \<or>
      (perfectMatching pool (swissPair h pool) \<and> noRematch h (swissPair h pool)))
   \<and> (\<not> (\<exists>M. perfectMatching pool M \<and> noRematch h M) \<longrightarrow> swissPair h pool = [])
   \<and> ((\<forall>x \<in> set pool. \<forall>y \<in> set pool. rematch h x y \<longrightarrow> rematch h y x)
        \<and> \<not> (\<exists>M. perfectMatching pool M \<and> rematchFree h M) \<longrightarrow> swissPair h pool = [])
   \<and> (odd (length pool) \<longrightarrow> swissPair h pool = [])
   \<and> (length pool < 2 \<longrightarrow> swissPair h pool = [])
   \<and> (\<not> fst (backtrack h pool used result) \<longrightarrow>
        backtrack h pool used result = (False, used, result))"
proof (intro conjI impI)
  show "swissPair h pool = [] \<or>
      (perfectMatching pool (swissPair h pool) \<and> noRematch h (swissPair h pool))"
    by (rule swissPair_cases)
  show "swissPair h pool = []" if "\<not> (\<exists>M. perfectMatching pool M \<and> noRematch h M)"
    using swissPair_cases [of h pool] that by blast
  show "swissPair h pool = []"
    if "(\<forall>x \<in> set pool. \<forall>y \<in> set pool. rematch h x y \<longrightarrow> rematch h y x)
        \<and> \<not> (\<exists>M. perfectMatching pool M \<and> rematchFree h M)"
    using swissPair_cases [of h pool] that noRematch_symmetric [of pool "swissPair h pool" h]
    by blast
  show "swissPair h pool = []" if "odd (length pool)"
    using swissPair_cases [of h pool] that by (auto dest: perfectMatching_even)
  show "swissPair h pool = []" if "length pool < 2"
    using that by (simp add: swissPair_def)
  show "backtrack h pool used result = (False, used, result)"
    if "\<not> fst (backtrack h pool used result)"
  proof -
    obtain ok u r where res: "backtrack h pool used result = (ok, u, r)"
      by (cases "backtrack h pool used result") auto
    with that backtrack_outcome(1) [OF res] show ?thesis by simp
  qed
qed

text \<open>
  C5. When the pool has a perfect matching in which no two paired teams have played each
  other (neither opponents list holds the other's name), \<^verbatim>\<open>swissPair\<close> returns disjoint
  pairs covering the whole pool. In each returned pair \<open>[a, b]\<close> the list of \<open>a\<close> does not
  hold the name of \<open>b\<close>, so no returned pair has two teams that are in each other's lists;
  and when the lists of the pool are symmetric, as recording both sides of every match makes
  them, neither list of a returned pair holds the other's name.
\<close>

theorem swissPair_finds_matching:
  assumes "\<exists>M. perfectMatching pool M \<and> rematchFree h M"
  shows "perfectMatching pool (swissPair h pool)
         \<and> noRematch h (swissPair h pool)
         \<and> list_all (\<lambda>(a, b). \<not> (rematch h a b \<and> rematch h b a)) (swissPair h pool)
         \<and> ((\<forall>x \<in> set pool. \<forall>y \<in> set pool. rematch h x y \<longrightarrow> rematch h y x) \<longrightarrow>
              rematchFree h (swissPair h pool))"
proof -
  from assms obtain M where M: "perfectMatching pool M" "rematchFree h M"
    by blast
  have main: "perfectMatching pool (swissPair h pool) \<and> noRematch h (swissPair h pool)"
  proof (cases "length pool < 2")
    case True
    with perfectMatching_even [OF M(1)] have "pool = []" by auto
    then show ?thesis
      by (simp add: swissPair_def perfectMatching_def noRematch_def)
  next
    case False
    from M have d: "distinct pool" and m: "matchable h pool {}"
      by (auto simp: perfectMatching_def matchable_def)
    obtain ok u r where res: "backtrack h pool {} [] = (ok, u, r)"
      by (cases "backtrack h pool {} []") auto
    from backtrack_complete(1) [OF d _ m, of "[]"] res have ok by simp
    with backtrack_outcome(1) [OF res] have "grown h pool {} [] u r" by simp
    from grown_perfect [OF this] False res show ?thesis
      by (simp add: swissPair_def)
  qed
  then have nr: "noRematch h (swissPair h pool)" and pm: "perfectMatching pool (swissPair h pool)"
    by simp_all
  have mutual: "list_all (\<lambda>(a, b). \<not> (rematch h a b \<and> rematch h b a)) (swissPair h pool)"
    using nr by (auto simp: noRematch_def list_all_iff)
  have sym: "rematchFree h (swissPair h pool)"
    if "\<forall>x \<in> set pool. \<forall>y \<in> set pool. rematch h x y \<longrightarrow> rematch h y x"
    using noRematch_symmetric [OF pm nr that] .
  from main mutual sym show ?thesis by blast
qed

lemma fourTeams_apply:
  "fourTeams 10 = teamWith ''Aces'' [''Ann'', ''Abe''] [''Dots'']"
  "fourTeams 11 = teamWith ''Bats'' [''Bea'', ''Bob''] []"
  "fourTeams 12 = teamWith ''Cubs'' [''Cat'', ''Cy''] [''Dots'']"
  "fourTeams 13 = teamWith ''Dots'' [''Dan'', ''Di''] [''Aces'', ''Cubs'']"
  by (simp_all add: fourTeams_def)

lemma fourTeams_rematch:
  "rematch fourTeams 10 13" "rematch fourTeams 13 10" "rematch fourTeams 12 13" "rematch fourTeams 13 12"
  "\<not> rematch fourTeams 10 11" "\<not> rematch fourTeams 10 12" "\<not> rematch fourTeams 11 10"
  "\<not> rematch fourTeams 11 12" "\<not> rematch fourTeams 11 13" "\<not> rematch fourTeams 12 10"
  "\<not> rematch fourTeams 12 11" "\<not> rematch fourTeams 13 11"
  "\<not> rematch fourTeams 10 10" "\<not> rematch fourTeams 11 11" "\<not> rematch fourTeams 12 12"
  "\<not> rematch fourTeams 13 13"
  by (simp_all add: rematch_def fourTeams_apply teamWith_def)

lemma swissPair_fourTeams: "swissPair fourTeams [10, 11, 12, 13] = [(10, 12), (11, 13)]"
  by (simp add: swissPair_def backtrack.simps fourTeams_apply teamWith_def)

theorem swissPair_finds_matching_witness:
  "(\<exists>M. perfectMatching [10, 11, 12, 13] M \<and> rematchFree fourTeams M)
   \<and> swissPair fourTeams [10, 11, 12, 13] = [(10, 12), (11, 13)]
   \<and> perfectMatching [10, 11, 12, 13] (swissPair fourTeams [10, 11, 12, 13])
   \<and> noRematch fourTeams (swissPair fourTeams [10, 11, 12, 13])
   \<and> rematchFree fourTeams (swissPair fourTeams [10, 11, 12, 13])"
proof -
  have "perfectMatching [10, 11, 12, 13] [(10, 12), (11, 13)]
        \<and> rematchFree fourTeams [(10, 12), (11, 13)]"
    by (auto simp: perfectMatching_def rematchFree_def played_def fourTeams_rematch)
  then have ex: "\<exists>M. perfectMatching [10, 11, 12, 13] M \<and> rematchFree fourTeams M"
    by blast
  have sym: "\<forall>x \<in> set [10, 11, 12, 13]. \<forall>y \<in> set [10, 11, 12, 13].
      rematch fourTeams x y \<longrightarrow> rematch fourTeams y x"
    by (simp add: fourTeams_rematch)
  from swissPair_finds_matching [OF ex] sym ex swissPair_fourTeams show ?thesis
    by simp
qed

lemma matching_of_two:
  assumes "perfectMatching [x, y] M"
  shows "M = [(x, y)] \<or> M = [(y, x)]"
proof -
  from perfectMatching_even [OF assms] have "length M = 1" by simp
  then obtain p q where M: "M = [(p, q)]"
    by (cases M) (auto simp: length_Suc_conv)
  with assms have "p \<noteq> q" "{p, q} = {x, y}"
    by (auto simp: perfectMatching_def)
  with M show ?thesis
    by (auto simp: doubleton_eq_iff)
qed

theorem swissPair_all_or_nothing_witness:
  "swissPair fourTeams [10, 11, 12, 13] = [(10, 12), (11, 13)]
   \<and> perfectMatching [10, 11, 12, 13] (swissPair fourTeams [10, 11, 12, 13])
   \<and> \<not> (\<exists>M. perfectMatching [10, 13] M \<and> noRematch fourTeams M)
   \<and> \<not> (\<exists>M. perfectMatching [10, 13] M \<and> rematchFree fourTeams M)
   \<and> swissPair fourTeams [10, 13] = []
   \<and> odd (length [10 :: nat, 11, 12]) \<and> swissPair fourTeams [10, 11, 12] = []
   \<and> length [12 :: nat] < 2 \<and> swissPair fourTeams [12] = []
   \<and> \<not> fst (backtrack fourTeams [10, 13] {} [])
   \<and> backtrack fourTeams [10, 13] {} [] = (False, {}, [])"
proof -
  have none: "\<not> (\<exists>M. perfectMatching [10, 13] M \<and> noRematch fourTeams M)"
  proof
    assume "\<exists>M. perfectMatching [10, 13] M \<and> noRematch fourTeams M"
    then obtain M where M: "perfectMatching [10, 13] M" "noRematch fourTeams M"
      by blast
    from matching_of_two [OF M(1)] M(2) show False
      by (auto simp: noRematch_def fourTeams_rematch)
  qed
  have none': "\<not> (\<exists>M. perfectMatching [10, 13] M \<and> rematchFree fourTeams M)"
  proof
    assume "\<exists>M. perfectMatching [10, 13] M \<and> rematchFree fourTeams M"
    then obtain M where M: "perfectMatching [10, 13] M" "rematchFree fourTeams M"
      by blast
    from matching_of_two [OF M(1)] M(2) show False
      by (auto simp: rematchFree_def played_def fourTeams_rematch)
  qed
  have sym: "\<forall>x \<in> set [10, 13]. \<forall>y \<in> set [10, 13].
      rematch fourTeams x y \<longrightarrow> rematch fourTeams y x"
    by (simp add: fourTeams_rematch)
  from swissPair_all_or_nothing [of fourTeams "[10, 13]" "{}" "[]"] sym none'
  have viaSym: "swissPair fourTeams [10, 13] = []"
    by blast
  have fail: "\<not> fst (backtrack fourTeams [10, 13] {} [])"
    by (simp add: backtrack.simps fourTeams_apply teamWith_def)
  have odd3: "odd (length [10 :: nat, 11, 12])" and short: "length [12 :: nat] < 2"
    by simp_all
  have ne: "swissPair fourTeams [10, 11, 12, 13] \<noteq> []"
    by (simp add: swissPair_fourTeams)
  from swissPair_all_or_nothing [of fourTeams "[10, 11, 12, 13]" "{}" "[]"] ne
  have "perfectMatching [10, 11, 12, 13] (swissPair fourTeams [10, 11, 12, 13])"
    by blast
  moreover from swissPair_all_or_nothing [of fourTeams "[10, 13]" "{}" "[]"] none fail
  have "swissPair fourTeams [10, 13] = []" "backtrack fourTeams [10, 13] {} [] = (False, {}, [])"
    by blast+
  moreover from swissPair_all_or_nothing [of fourTeams "[10, 11, 12]" "{}" "[]"] odd3
  have "swissPair fourTeams [10, 11, 12] = []"
    by blast
  moreover from swissPair_all_or_nothing [of fourTeams "[12]" "{}" "[]"] short
  have "swissPair fourTeams [12] = []"
    by blast
  ultimately show ?thesis
    using none none' fail odd3 short swissPair_fourTeams by simp
qed

section \<open>Advancing the Swiss rounds\<close>

text \<open>
  C9. While the pending count is greater than 0, \<^verbatim>\<open>nextSwissRound\<close> returns at once: the
  state it leaves is the state it was given (the same \<open>swissRound\<close>, \<open>pending\<close>, teams and
  team records) and it creates no match.
\<close>

theorem nextSwissRound_blocked:
  assumes "pending st > 0"
  shows "nextSwissRound st = (st, [])"
  using assms by (simp add: nextSwissRound_def)

theorem nextSwissRound_blocked_witness:
  "pending roundOneOpen > 0 \<and> nextSwissRound roundOneOpen = (roundOneOpen, [])
   \<and> swissRound (fst (nextSwissRound roundOneOpen)) = 1
   \<and> pending (fst (nextSwissRound roundOneOpen)) = 2"
proof -
  have p: "pending roundOneOpen > 0"
    by (simp add: roundOneOpen_def)
  from nextSwissRound_blocked [OF p] p show ?thesis
    by (simp add: roundOneOpen_def)
qed

lemma createMatches_heap: "heap (fst (createMatches mk ps r)) = heap (fst r)"
  by (simp add: createMatches_def)

lemma createMatches_teams: "teams (fst (createMatches mk ps r)) = teams (fst r)"
  by (simp add: createMatches_def)

lemma clear_marks:
  "playR4 (swiss (foldl (setPlayR4 False) h ts t)) = (playR4 (swiss (h t)) \<and> t \<notin> set ts)"
  by (induction ts arbitrary: h) (auto simp: setPlayR4_def)

lemma round4_four:
  assumes "length (r4teamsOf st) = 4" and "t \<in> set (teams st)"
  shows "\<not> playR4 (swiss (heap (fst (round4 st)) t))"
proof -
  from assms(2) have "playR4 (swiss (heap st t)) \<longrightarrow> t \<in> set (r4teamsOf st)"
    by (simp add: r4teamsOf_def)
  with assms(1) show ?thesis
    by (simp add: round4_def Let_def clear_marks createMatches_heap)
qed

lemma round4_other:
  assumes "length (r4teamsOf st) \<noteq> 4"
  shows "round4 st = (st, [])"
  using assms by (simp add: round4_def)

text \<open>
  C4, as the code has it. The round-4 advance is \<^verbatim>\<open>nextSwissRound\<close> called with
  \<open>swissRound = 3\<close> and nothing pending. When exactly four teams carry the mark, no team of
  the league carries it afterwards, whether or not matches were created; with any other
  number of marked teams the team objects are left as they were, marks included, and no
  match is created.
\<close>

theorem round4_marks:
  assumes "swissRound st = 3" and "\<not> pending st > 0"
  shows "(length (r4teamsOf st) = 4 \<longrightarrow>
            (\<forall>t \<in> set (teams st). \<not> playR4 (swiss (heap (fst (nextSwissRound st)) t))))
         \<and> (length (r4teamsOf st) \<noteq> 4 \<longrightarrow>
              heap (fst (nextSwissRound st)) = heap st \<and> snd (nextSwissRound st) = [])"
proof -
  define st1 where "st1 = st\<lparr>swissRound := swissRound st + 1, pending := 0\<rparr>"
  have r4: "r4teamsOf st1 = r4teamsOf st" and tm: "teams st1 = teams st" and hp: "heap st1 = heap st"
    by (simp_all add: st1_def r4teamsOf_def)
  have nsr: "nextSwissRound st = (if teams st = [] then (st1, []) else round4 st1)"
    using assms by (simp add: nextSwissRound_def st1_def Let_def)
  show ?thesis
  proof (cases "teams st = []")
    case True
    with nsr hp show ?thesis
      by (simp add: r4teamsOf_def)
  next
    case False
    with nsr have eq: "nextSwissRound st = round4 st1" by simp
    show ?thesis
      unfolding eq
      using round4_four [of st1] round4_other [of st1] r4 tm hp by auto
  qed
qed

text \<open>
  C4. The marks are deleted inside the branch for exactly four marked teams only. With two
  marked teams the round-4 advance logs the warning, creates no match, and both teams keep
  \<^verbatim>\<open>swiss.playR4\<close>.
\<close>

theorem round4_keeps_marks:
  "swissRound twoMarked = 3 \<and> pending twoMarked = 0 \<and> length (r4teamsOf twoMarked) = 2
   \<and> swissRound (fst (nextSwissRound twoMarked)) = 4
   \<and> snd (nextSwissRound twoMarked) = []
   \<and> teams (fst (nextSwissRound twoMarked)) = [10, 11]
   \<and> playR4 (swiss (heap (fst (nextSwissRound twoMarked)) 10))
   \<and> playR4 (swiss (heap (fst (nextSwissRound twoMarked)) 11))"
  by (simp add: twoMarked_def nextSwissRound_def round4_def r4teamsOf_def teamR4_def)

lemma fourMarked_r4: "r4teamsOf fourMarked = [10, 11, 12, 13]"
  by (simp add: fourMarked_def r4teamsOf_def teamR4_def)

lemma twoMarked_r4: "r4teamsOf twoMarked = [10, 11]"
  by (simp add: twoMarked_def r4teamsOf_def teamR4_def)

lemma fourMarked_matches:
  "snd (nextSwissRound fourMarked) = [makeMatch 10 11 True, makeMatch 12 13 True]
   \<and> pending (fst (nextSwissRound fourMarked)) = 2"
  by (simp add: fourMarked_def nextSwissRound_def round4_def r4teamsOf_def teamR4_def
      createMatches_def swissPair_def backtrack.simps teamWith_def)

theorem round4_marks_witness:
  "swissRound fourMarked = 3 \<and> \<not> pending fourMarked > 0 \<and> length (r4teamsOf fourMarked) = 4
   \<and> \<not> playR4 (swiss (heap (fst (nextSwissRound fourMarked)) 10))
   \<and> \<not> playR4 (swiss (heap (fst (nextSwissRound fourMarked)) 11))
   \<and> \<not> playR4 (swiss (heap (fst (nextSwissRound fourMarked)) 12))
   \<and> \<not> playR4 (swiss (heap (fst (nextSwissRound fourMarked)) 13))
   \<and> snd (nextSwissRound fourMarked) = [makeMatch 10 11 True, makeMatch 12 13 True]
   \<and> swissRound twoMarked = 3 \<and> \<not> pending twoMarked > 0 \<and> length (r4teamsOf twoMarked) \<noteq> 4
   \<and> heap (fst (nextSwissRound twoMarked)) = heap twoMarked
   \<and> snd (nextSwissRound twoMarked) = []"
proof -
  have a: "swissRound fourMarked = 3" "\<not> pending fourMarked > 0"
    and b: "swissRound twoMarked = 3" "\<not> pending twoMarked > 0"
    by (simp_all add: fourMarked_def twoMarked_def)
  have t: "teams fourMarked = [10, 11, 12, 13]"
    by (simp add: fourMarked_def)
  from round4_marks [OF a] round4_marks [OF b] a b fourMarked_matches show ?thesis
    by (simp add: fourMarked_r4 twoMarked_r4 t)
qed

section \<open>League ranking\<close>

lemma ranksBefore_key: "ranksBefore lc a b = leagueKeyBefore lc a b"
  by (auto simp: ranksBefore_def leagueKeyBefore_def comparePlayersByLeague_def)

lemma compare_level:
  "pts (league a) = pts (league b) \<Longrightarrow> w (league a) = w (league b)
   \<Longrightarrow> pd (league a) = pd (league b)
   \<Longrightarrow> comparePlayersByLeague lc a b = lc (name a) (name b)"
  by (simp add: comparePlayersByLeague_def)

lemma strictCollation_zero:
  "strictCollation lc S \<Longrightarrow> x \<in> S \<Longrightarrow> y \<in> S \<Longrightarrow> (lc x y = 0) = (x = y)"
  by (simp add: strictCollation_def)

lemma strictCollation_flip:
  "strictCollation lc S \<Longrightarrow> x \<in> S \<Longrightarrow> y \<in> S \<Longrightarrow> (lc x y < 0) = (lc y x > 0)"
  by (simp add: strictCollation_def)

lemma strictCollation_trans:
  "strictCollation lc S \<Longrightarrow> x \<in> S \<Longrightarrow> y \<in> S \<Longrightarrow> z \<in> S
   \<Longrightarrow> lc x y < 0 \<Longrightarrow> lc y z < 0 \<Longrightarrow> lc x z < 0"
  unfolding strictCollation_def by blast

lemma strictCollation_sgn:
  assumes "strictCollation lc S" "x \<in> S" "y \<in> S"
  shows "sgn (lc y x) = - sgn (lc x y)"
proof -
  from assms have z: "(lc x y = 0) = (x = y)" "(lc y x = 0) = (y = x)"
    and f: "(lc x y < 0) = (lc y x > 0)" "(lc y x < 0) = (lc x y > 0)"
    by (simp_all add: strictCollation_zero strictCollation_flip)
  consider "lc x y < 0" | "lc x y = 0" | "lc x y > 0"
    by linarith
  then show ?thesis
  proof cases
    case 1
    with f show ?thesis by simp
  next
    case 2
    with z have "lc y x = 0" by auto
    with 2 show ?thesis by simp
  next
    case 3
    with f have "lc y x < 0" by simp
    with 3 show ?thesis by simp
  qed
qed

lemma compare_zero:
  assumes "strictCollation lc S" "name a \<in> S" "name b \<in> S"
  shows "(comparePlayersByLeague lc a b = 0) =
     (pts (league a) = pts (league b) \<and> w (league a) = w (league b)
      \<and> pd (league a) = pd (league b) \<and> name a = name b)"
  using strictCollation_zero [OF assms] by (auto simp: comparePlayersByLeague_def)

lemma compare_flip:
  assumes "strictCollation lc S" "name a \<in> S" "name b \<in> S"
  shows "sgn (comparePlayersByLeague lc b a) = - sgn (comparePlayersByLeague lc a b)"
proof (cases "pts (league a) = pts (league b) \<and> w (league a) = w (league b)
    \<and> pd (league a) = pd (league b)")
  case True
  with strictCollation_sgn [OF assms] show ?thesis
    by (simp add: compare_level)
next
  case False
  then show ?thesis
    by (auto simp: comparePlayersByLeague_def sgn_if)
qed

lemma letterCollation_examples:
  "letterCollation ''abe'' ''Ann'' = - 1" "letterCollation ''Ann'' ''abe'' = 1"
  "letterCollation ''Ann'' ''Zed'' = - 1" "letterCollation ''Zed'' ''Ann'' = 1"
  "letterCollation ''abe'' ''Zed'' = - 1" "letterCollation ''Zed'' ''abe'' = 1"
  "letterCollation ''a'' ''B'' = - 1" "letterCollation ''ann'' ''Ann'' = - 1"
  "letterCollation ''Ann'' ''Ann'' = 0" "letterCollation ''Zed'' ''Zed'' = 0"
  "letterCollation ''abe'' ''abe'' = 0"
  by code_simp+

lemma example_names: "''Ann'' < ''Zed''" "''Zed'' < ''abe''" "''Ann'' < ''abe''"
  by simp_all

lemma letterCollation_strict:
  "strictCollation letterCollation {''Ann'', ''Zed'', ''abe''}"
  by (simp add: strictCollation_def letterCollation_examples)

text \<open>
  C8, as the specification has it, fails at the name tier. \<open>Ann\<close> and \<open>abe\<close> are level on
  points, wins and differential, and \<open>Ann\<close> is the smaller name in the case-sensitive
  lexicographic order (\<open>A\<close> has a smaller code than \<open>a\<close>); the comparator, with the
  platform's comparison of names, ranks \<open>abe\<close> before \<open>Ann\<close>.
\<close>

theorem comparePlayersByLeague_not_by_character_codes:
  "pts (league playerAbe) = pts (league playerAnn)
   \<and> w (league playerAbe) = w (league playerAnn)
   \<and> pd (league playerAbe) = pd (league playerAnn)
   \<and> name playerAnn < name playerAbe
   \<and> comparePlayersByLeague letterCollation playerAbe playerAnn < 0
   \<and> comparePlayersByLeague letterCollation playerAnn playerAbe > 0
   \<and> ranksBefore letterCollation playerAbe playerAnn
   \<and> \<not> ranksBefore letterCollation playerAnn playerAbe"
  by (simp add: ranksBefore_def comparePlayersByLeague_def letterCollation_examples
      playerAnn_def playerAbe_def mkPlayer_def)

text \<open>
  C8, as the code has it. \<open>a\<close> is ranked before \<open>b\<close> by the comparator exactly when \<open>a\<close> has
  more points, or equal points and more wins, or equal points and wins and a larger point
  differential, or all three equal and the platform's \<^verbatim>\<open>localeCompare\<close> of the name of \<open>a\<close>
  with the name of \<open>b\<close> is negative. On every set of players on whose names
  \<^verbatim>\<open>localeCompare\<close> is a strict total order, this relation is irreflexive, asymmetric and
  transitive, and any two players with different names are ranked one before the other;
  swapping the arguments flips the sign of the comparator, and it returns 0 only for
  players equal in all four keys.
\<close>

theorem comparePlayersByLeague_total_order:
  assumes "strictCollation lc S" and "name a \<in> S" and "name b \<in> S" and "name c \<in> S"
  shows "ranksBefore lc a b = leagueKeyBefore lc a b
   \<and> \<not> ranksBefore lc a a
   \<and> (ranksBefore lc a b \<longrightarrow> \<not> ranksBefore lc b a)
   \<and> (ranksBefore lc a b \<longrightarrow> ranksBefore lc b c \<longrightarrow> ranksBefore lc a c)
   \<and> (name a \<noteq> name b \<longrightarrow> ranksBefore lc a b \<or> ranksBefore lc b a)
   \<and> sgn (comparePlayersByLeague lc b a) = - sgn (comparePlayersByLeague lc a b)
   \<and> (comparePlayersByLeague lc a b = 0) =
        (pts (league a) = pts (league b) \<and> w (league a) = w (league b)
         \<and> pd (league a) = pd (league b) \<and> name a = name b)"
proof (intro conjI impI)
  note z = strictCollation_zero [OF assms(1)]
  note f = strictCollation_flip [OF assms(1)]
  show "ranksBefore lc a b = leagueKeyBefore lc a b"
    by (rule ranksBefore_key)
  show "\<not> ranksBefore lc a a"
    using z [OF assms(2) assms(2)] by (simp add: ranksBefore_key leagueKeyBefore_def)
  show "\<not> ranksBefore lc b a" if "ranksBefore lc a b"
    using that f [OF assms(2) assms(3)] by (auto simp: ranksBefore_key leagueKeyBefore_def)
  show "ranksBefore lc a c" if "ranksBefore lc a b" "ranksBefore lc b c"
  proof -
    have names: "lc (name a) (name b) < 0 \<Longrightarrow> lc (name b) (name c) < 0
        \<Longrightarrow> lc (name a) (name c) < 0"
      by (rule strictCollation_trans [OF assms])
    from that names show ?thesis
      unfolding ranksBefore_key leagueKeyBefore_def by (elim disjE conjE) simp_all
  qed
  show "ranksBefore lc a b \<or> ranksBefore lc b a" if "name a \<noteq> name b"
  proof -
    from that z [OF assms(2) assms(3)] have "lc (name a) (name b) \<noteq> 0"
      by simp
    with f [OF assms(3) assms(2)]
    have "lc (name a) (name b) < 0 \<or> lc (name b) (name a) < 0"
      by auto
    then show ?thesis
      unfolding ranksBefore_key leagueKeyBefore_def by (metis linorder_neqE)
  qed
  show "sgn (comparePlayersByLeague lc b a) = - sgn (comparePlayersByLeague lc a b)"
    by (rule compare_flip [OF assms(1,2,3)])
  show "(comparePlayersByLeague lc a b = 0) =
        (pts (league a) = pts (league b) \<and> w (league a) = w (league b)
         \<and> pd (league a) = pd (league b) \<and> name a = name b)"
    by (rule compare_zero [OF assms(1,2,3)])
qed

theorem comparePlayersByLeague_total_order_witness:
  "letterCollation ''abe'' ''Ann'' < 0 \<and> letterCollation ''Ann'' ''Zed'' < 0
   \<and> name playerAbe \<in> {''Ann'', ''Zed'', ''abe''}
   \<and> name playerAnn \<in> {''Ann'', ''Zed'', ''abe''}
   \<and> name playerZed \<in> {''Ann'', ''Zed'', ''abe''}
   \<and> ranksBefore letterCollation playerAbe playerAnn
   \<and> ranksBefore letterCollation playerAnn playerZed
   \<and> ranksBefore letterCollation playerAbe playerZed
   \<and> \<not> ranksBefore letterCollation playerAnn playerAbe
   \<and> name playerAbe \<noteq> name playerAnn
   \<and> comparePlayersByLeague letterCollation playerAbe playerAnn = - 1
   \<and> comparePlayersByLeague letterCollation playerAnn playerAbe = 1
   \<and> ranksBefore letterCollation playerBob playerAnn
   \<and> ranksBefore letterCollation playerCat playerBob
   \<and> ranksBefore letterCollation playerDan playerCat"
proof -
  have mem: "name playerAbe \<in> {''Ann'', ''Zed'', ''abe''}"
    "name playerAnn \<in> {''Ann'', ''Zed'', ''abe''}"
    "name playerZed \<in> {''Ann'', ''Zed'', ''abe''}"
    by (simp_all add: playerAnn_def playerZed_def playerAbe_def mkPlayer_def)
  have ba: "ranksBefore letterCollation playerAbe playerAnn"
    and az: "ranksBefore letterCollation playerAnn playerZed"
    by (simp_all add: ranksBefore_def comparePlayersByLeague_def letterCollation_examples
        playerAnn_def playerZed_def playerAbe_def mkPlayer_def)
  have ne: "name playerAbe \<noteq> name playerAnn"
    by (simp add: playerAnn_def playerAbe_def mkPlayer_def)
  have cmp: "comparePlayersByLeague letterCollation playerAbe playerAnn = - 1"
    "comparePlayersByLeague letterCollation playerAnn playerAbe = 1"
    by (simp_all add: comparePlayersByLeague_def letterCollation_examples
        playerAnn_def playerAbe_def mkPlayer_def)
  have more: "ranksBefore letterCollation playerBob playerAnn"
    "ranksBefore letterCollation playerCat playerBob"
    "ranksBefore letterCollation playerDan playerCat"
    by (simp_all add: ranksBefore_def comparePlayersByLeague_def
        playerAnn_def playerBob_def playerCat_def playerDan_def mkPlayer_def)
  from comparePlayersByLeague_total_order [OF letterCollation_strict mem]
    ba az ne cmp more mem letterCollation_examples
  show ?thesis
    by simp
qed

section \<open>Week finalization\<close>

lemma awardPlayer_Some: "awardPlayer n (Some p) b ps = Inr (creditFirst n p b ps)"
  by (induction ps) auto

lemma awardTeam_Some:
  "awardTeam (Some p) b ns ps = Inr (applyEvents (map (\<lambda>n. (n, p, b)) ns) ps)"
  by (induction ns arbitrary: ps) (auto simp: awardPlayer_Some applyEvents_def)

lemma applyEvents_append: "applyEvents (xs @ ys) ps = applyEvents ys (applyEvents xs ps)"
  by (simp add: applyEvents_def)

lemma pts_in_range:
  "i < length BRACKET_BASE_POINTS \<Longrightarrow> hiPts i = Some (hiAward i) \<and> loPts i = Some (loAward i)"
  by (simp add: hiPts_def loPts_def basePoints_def hiAward_def loAward_def)

lemma awardPairs_events:
  "i + length r3 \<le> length BRACKET_BASE_POINTS \<Longrightarrow>
     awardPairs h i r3 ps = Inr (applyEvents (events h i r3) ps)"
proof (induction r3 arbitrary: i ps)
  case Nil
  then show ?case by (simp add: applyEvents_def)
next
  case (Cons pair rest)
  then have "i < length BRACKET_BASE_POINTS" "Suc i + length rest \<le> length BRACKET_BASE_POINTS"
    by simp_all
  with Cons.IH [of "Suc i"] pts_in_range [of i] show ?case
    by (simp add: Let_def awardTeam_Some applyEvents_append)
qed

lemma name_credit: "name (credit p b x) = name x"
  by (simp add: credit_def)

lemma find_creditFirst:
  "findPlayerByName (creditFirst n p b ps) n' =
     (if n' = n then map_option (credit p b) (findPlayerByName ps n)
      else findPlayerByName ps n')"
  by (induction ps) (auto simp: findPlayerByName_def name_credit)

lemma find_applyEvents:
  "distinct (map fst evs) \<Longrightarrow>
     findPlayerByName (applyEvents evs ps) n =
       (case map_of evs n of
          None \<Rightarrow> findPlayerByName ps n
        | Some (p, b) \<Rightarrow> map_option (credit p b) (findPlayerByName ps n))"
proof (induction evs arbitrary: ps)
  case Nil
  then show ?case by (simp add: applyEvents_def)
next
  case (Cons ev evs)
  obtain m p b where ev: "ev = (m, p, b)" by (cases ev) auto
  from Cons.prems ev have d: "distinct (map fst evs)" and m: "m \<notin> fst ` set evs"
    by simp_all
  have step: "applyEvents ((m, p, b) # evs) ps = applyEvents evs (creditFirst m p b ps)"
    by (simp add: applyEvents_def)
  show ?case
  proof (cases "n = m")
    case True
    with m have "map_of evs n = None"
      by (simp add: map_of_eq_None_iff)
    with Cons.IH [OF d, of "creditFirst m p b ps"] True show ?thesis
      by (simp add: step ev find_creditFirst)
  next
    case False
    then have f: "findPlayerByName (creditFirst m p b ps) n = findPlayerByName ps n"
      by (simp add: find_creditFirst)
    from False have mo: "map_of ((m, p, b) # evs) n = map_of evs n"
      by simp
    show ?thesis
      unfolding ev step Cons.IH [OF d, of "creditFirst m p b ps"] f mo ..
  qed
qed

lemma hi_lo_cases:
  "(hiTeamOf h (a, b) = a \<and> loTeamOf h (a, b) = b) \<or> (hiTeamOf h (a, b) = b \<and> loTeamOf h (a, b) = a)"
  by (auto simp: hiTeamOf_def loTeamOf_def)

lemma events_names_set: "set (map fst (events h i r3)) = set (rosterNames h r3)"
proof (induction r3 arbitrary: i)
  case Nil
  then show ?case by (simp add: rosterNames_def)
next
  case (Cons pair rest)
  obtain a b where p: "pair = (a, b)" by (cases pair) auto
  from Cons.IH [of "Suc i"] hi_lo_cases [of h a b] show ?case
    by (auto simp: rosterNames_def p image_Un image_image)
qed

lemma events_names_distinct:
  "distinct (rosterNames h r3) \<Longrightarrow> distinct (map fst (events h i r3))"
proof (induction r3 arbitrary: i)
  case Nil
  then show ?case by simp
next
  case (Cons pair rest)
  obtain a b where p: "pair = (a, b)" by (cases pair) auto
  from Cons.prems have rest: "distinct (rosterNames h rest)"
    and da: "distinct (players (h a))" and db: "distinct (players (h b))"
    and ab: "set (players (h a)) \<inter> set (players (h b)) = {}"
    and ar: "set (players (h a)) \<inter> set (rosterNames h rest) = {}"
    and br: "set (players (h b)) \<inter> set (rosterNames h rest) = {}"
    by (auto simp: rosterNames_def p)
  from Cons.IH [OF rest, of "Suc i"] have ih: "distinct (map fst (events h (Suc i) rest))" .
  have s: "set (map fst (events h (Suc i) rest)) = set (rosterNames h rest)"
    by (rule events_names_set)
  from hi_lo_cases [of h a b] show ?case
  proof
    assume "hiTeamOf h (a, b) = a \<and> loTeamOf h (a, b) = b"
    with da db ab ar br ih s show ?thesis
      by (auto simp: p comp_def distinct_map inj_on_def)
  next
    assume "hiTeamOf h (a, b) = b \<and> loTeamOf h (a, b) = a"
    with da db ab ar br ih s show ?thesis
      by (auto simp: p comp_def distinct_map inj_on_def)
  qed
qed

lemma events_hi:
  "k < length r3 \<Longrightarrow> n \<in> set (players (h (hiTeamOf h (r3 ! k)))) \<Longrightarrow>
     (n, hiAward (i + k), bracket (h (hiTeamOf h (r3 ! k)))) \<in> set (events h i r3)"
proof (induction r3 arbitrary: i k)
  case Nil
  then show ?case by simp
next
  case (Cons pair rest)
  show ?case
  proof (cases k)
    case 0
    with Cons.prems show ?thesis by auto
  next
    case (Suc j)
    with Cons.prems Cons.IH [of j "Suc i"] show ?thesis by auto
  qed
qed

lemma events_lo:
  "k < length r3 \<Longrightarrow> n \<in> set (players (h (loTeamOf h (r3 ! k)))) \<Longrightarrow>
     (n, loAward (i + k), bracket (h (loTeamOf h (r3 ! k)))) \<in> set (events h i r3)"
proof (induction r3 arbitrary: i k)
  case Nil
  then show ?case by simp
next
  case (Cons pair rest)
  show ?case
  proof (cases k)
    case 0
    with Cons.prems show ?thesis by auto
  next
    case (Suc j)
    with Cons.prems Cons.IH [of j "Suc i"] show ?thesis by auto
  qed
qed

lemma awarded_credit:
  "findPlayerByName after n = map_option (credit p b) (findPlayerByName before n) \<Longrightarrow>
     awarded before after p b n"
  by (auto simp: awarded_def credited_def credit_def split: option.splits)

lemma awarded_event:
  assumes d: "distinct (map fst evs)" and m: "(n, p, b) \<in> set evs"
  shows "awarded ps (applyEvents evs ps) p b n"
proof -
  from d m have "map_of evs n = Some (p, b)"
    by (rule map_of_is_SomeI)
  with find_applyEvents [OF d, of ps n] show ?thesis
    by (intro awarded_credit) simp
qed

lemma default_awards:
  "map hiPts [0, 1, 2, 3] = [Some 15, Some 8, Some 6, Some 4]"
  "map loPts [0, 1, 2, 3] = [Some 8, Some 6, Some 4, Some 2]"
  by (simp_all add: hiPts_def loPts_def basePoints_def BRACKET_BASE_POINTS_def
      FIRST_PLACE_BONUS_def LOSER_POINT_PENALTY_def)

lemma finalizeWeek_succeeds:
  assumes "length (bracketRounds st) > 2" and "bracketRounds st ! 2 \<noteq> []"
    and "length (bracketRounds st ! 2) \<le> 4"
  shows "finalizeWeek st =
           Inr (st\<lparr>playerList := applyEvents (events (heap st) 0 (bracketRounds st ! 2))
                                    (playerList st),
                   heap := foldl resetTeam (heap st) (teams st)\<rparr>)"
proof -
  from assms(3) have "0 + length (bracketRounds st ! 2) \<le> length BRACKET_BASE_POINTS"
    by (simp add: BRACKET_BASE_POINTS_def)
  from awardPairs_events [OF this] assms(1,2) show ?thesis
    by (simp add: finalizeWeek_def)
qed

lemma hiTeamOf_first:
  "w (bracket (h a)) > w (bracket (h b)) \<Longrightarrow> hiTeamOf h (a, b) = a \<and> loTeamOf h (a, b) = b"
  by (simp add: hiTeamOf_def loTeamOf_def)

lemma hiTeamOf_second:
  "w (bracket (h a)) \<le> w (bracket (h b)) \<Longrightarrow> hiTeamOf h (a, b) = b \<and> loTeamOf h (a, b) = a"
  by (auto simp: hiTeamOf_def loTeamOf_def)

lemma awards_hi_lo:
  assumes d: "distinct (rosterNames h r3)" and i: "i < length r3"
  shows "n \<in> set (players (h (hiTeamOf h (r3 ! i)))) \<Longrightarrow>
           awarded ps (applyEvents (events h 0 r3) ps)
             (BRACKET_BASE_POINTS ! i + (if i = 0 then FIRST_PLACE_BONUS else 0))
             (bracket (h (hiTeamOf h (r3 ! i)))) n"
    and "n \<in> set (players (h (loTeamOf h (r3 ! i)))) \<Longrightarrow>
           awarded ps (applyEvents (events h 0 r3) ps)
             (BRACKET_BASE_POINTS ! i - LOSER_POINT_PENALTY)
             (bracket (h (loTeamOf h (r3 ! i)))) n"
proof -
  have dist: "distinct (map fst (events h 0 r3))"
    by (rule events_names_distinct [OF d])
  {
    assume "n \<in> set (players (h (hiTeamOf h (r3 ! i))))"
    with i have "(n, hiAward (0 + i), bracket (h (hiTeamOf h (r3 ! i)))) \<in> set (events h 0 r3)"
      by (rule events_hi)
    from awarded_event [OF dist this, of ps]
    show "awarded ps (applyEvents (events h 0 r3) ps)
             (BRACKET_BASE_POINTS ! i + (if i = 0 then FIRST_PLACE_BONUS else 0))
             (bracket (h (hiTeamOf h (r3 ! i)))) n"
      by (simp add: hiAward_def)
  }
  {
    assume "n \<in> set (players (h (loTeamOf h (r3 ! i))))"
    with i have "(n, loAward (0 + i), bracket (h (loTeamOf h (r3 ! i)))) \<in> set (events h 0 r3)"
      by (rule events_lo)
    from awarded_event [OF dist this, of ps]
    show "awarded ps (applyEvents (events h 0 r3) ps)
             (BRACKET_BASE_POINTS ! i - LOSER_POINT_PENALTY)
             (bracket (h (loTeamOf h (r3 ! i)))) n"
      by (simp add: loAward_def)
  }
qed

text \<open>
  C7. Let round 3 of the bracket hold between one and four pairs, and let the rosters of
  its teams name every player once. Then \<^verbatim>\<open>finalizeWeek\<close> completes, and for the pair
  \<open>[a, b]\<close> at index \<open>i\<close>:
  \<^item> when \<open>a\<close> has more bracket wins than \<open>b\<close>, every player found under a name of the roster
    of \<open>a\<close> has \<open>BRACKET_BASE_POINTS[i]\<close>, plus \<open>FIRST_PLACE_BONUS\<close> when \<open>i = 0\<close>, added to the
    league points, and the bracket wins, losses and point differential of \<open>a\<close> added to the
    league wins, losses and differential; every player of \<open>b\<close> has
    \<open>BRACKET_BASE_POINTS[i] - LOSER_POINT_PENALTY\<close> added to the league points and the bracket
    record of \<open>b\<close> added to the league record;
  \<^item> when \<open>b\<close> has more bracket wins than \<open>a\<close>, the same with \<open>b\<close> as the winner and \<open>a\<close> as
    the loser;
  \<^item> when the bracket wins are equal there is no winner by wins, and the code gives the
    winner's award to the second team \<open>b\<close> and the loser's award to \<open>a\<close>.
  With the constants of \<^verbatim>\<open>config.js\<close> the awards by tier are 15/8, 8/6, 6/4 and 4/2.
\<close>

theorem finalizeWeek_awards:
  assumes r3: "length (bracketRounds st) > 2" "bracketRounds st ! 2 = r3"
    and size: "r3 \<noteq> []" "length r3 \<le> 4"
    and d: "distinct (rosterNames (heap st) r3)"
  shows "\<exists>st'. finalizeWeek st = Inr st'
     \<and> (\<forall>i < length r3. \<forall>a b. r3 ! i = (a, b) \<longrightarrow>
          (w (bracket (heap st a)) > w (bracket (heap st b)) \<longrightarrow>
             (\<forall>n \<in> set (players (heap st a)).
                awarded (playerList st) (playerList st')
                  (BRACKET_BASE_POINTS ! i + (if i = 0 then FIRST_PLACE_BONUS else 0))
                  (bracket (heap st a)) n)
             \<and> (\<forall>n \<in> set (players (heap st b)).
                  awarded (playerList st) (playerList st')
                    (BRACKET_BASE_POINTS ! i - LOSER_POINT_PENALTY)
                    (bracket (heap st b)) n))
          \<and> (w (bracket (heap st a)) < w (bracket (heap st b)) \<longrightarrow>
               (\<forall>n \<in> set (players (heap st b)).
                  awarded (playerList st) (playerList st')
                    (BRACKET_BASE_POINTS ! i + (if i = 0 then FIRST_PLACE_BONUS else 0))
                    (bracket (heap st b)) n)
               \<and> (\<forall>n \<in> set (players (heap st a)).
                    awarded (playerList st) (playerList st')
                      (BRACKET_BASE_POINTS ! i - LOSER_POINT_PENALTY)
                      (bracket (heap st a)) n))
          \<and> (w (bracket (heap st a)) = w (bracket (heap st b)) \<longrightarrow>
               (\<forall>n \<in> set (players (heap st b)).
                  awarded (playerList st) (playerList st')
                    (BRACKET_BASE_POINTS ! i + (if i = 0 then FIRST_PLACE_BONUS else 0))
                    (bracket (heap st b)) n)
               \<and> (\<forall>n \<in> set (players (heap st a)).
                    awarded (playerList st) (playerList st')
                      (BRACKET_BASE_POINTS ! i - LOSER_POINT_PENALTY)
                      (bracket (heap st a)) n)))
     \<and> map hiPts [0, 1, 2, 3] = [Some 15, Some 8, Some 6, Some 4]
     \<and> map loPts [0, 1, 2, 3] = [Some 8, Some 6, Some 4, Some 2]"
proof -
  let ?h = "heap st"
  let ?ps = "applyEvents (events ?h 0 r3) (playerList st)"
  let ?st' = "st\<lparr>playerList := ?ps, heap := foldl resetTeam ?h (teams st)\<rparr>"
  let ?hi = "\<lambda>i. BRACKET_BASE_POINTS ! i + (if i = 0 then FIRST_PLACE_BONUS else 0)"
  let ?lo = "\<lambda>i. BRACKET_BASE_POINTS ! i - LOSER_POINT_PENALTY"
  from finalizeWeek_succeeds [of st] r3 size have fin: "finalizeWeek st = Inr ?st'"
    by simp
  have first: "(\<forall>n \<in> set (players (?h a)). awarded (playerList st) ?ps (?hi i) (bracket (?h a)) n)
             \<and> (\<forall>n \<in> set (players (?h b)). awarded (playerList st) ?ps (?lo i) (bracket (?h b)) n)"
    if "i < length r3" "r3 ! i = (a, b)" "w (bracket (?h a)) > w (bracket (?h b))" for i a b
    using awards_hi_lo [OF d that(1), of _ "playerList st"] hiTeamOf_first [OF that(3)] that(2)
    by simp
  have second: "(\<forall>n \<in> set (players (?h b)). awarded (playerList st) ?ps (?hi i) (bracket (?h b)) n)
             \<and> (\<forall>n \<in> set (players (?h a)). awarded (playerList st) ?ps (?lo i) (bracket (?h a)) n)"
    if "i < length r3" "r3 ! i = (a, b)" "w (bracket (?h a)) \<le> w (bracket (?h b))" for i a b
    using awards_hi_lo [OF d that(1), of _ "playerList st"] hiTeamOf_second [OF that(3)] that(2)
    by simp
  have pairs: "\<forall>i < length r3. \<forall>a b. r3 ! i = (a, b) \<longrightarrow>
      (w (bracket (?h a)) > w (bracket (?h b)) \<longrightarrow>
         (\<forall>n \<in> set (players (?h a)). awarded (playerList st) ?ps (?hi i) (bracket (?h a)) n)
         \<and> (\<forall>n \<in> set (players (?h b)). awarded (playerList st) ?ps (?lo i) (bracket (?h b)) n))
      \<and> (w (bracket (?h a)) < w (bracket (?h b)) \<longrightarrow>
           (\<forall>n \<in> set (players (?h b)). awarded (playerList st) ?ps (?hi i) (bracket (?h b)) n)
           \<and> (\<forall>n \<in> set (players (?h a)). awarded (playerList st) ?ps (?lo i) (bracket (?h a)) n))
      \<and> (w (bracket (?h a)) = w (bracket (?h b)) \<longrightarrow>
           (\<forall>n \<in> set (players (?h b)). awarded (playerList st) ?ps (?hi i) (bracket (?h b)) n)
           \<and> (\<forall>n \<in> set (players (?h a)). awarded (playerList st) ?ps (?lo i) (bracket (?h a)) n))"
  proof (intro allI impI conjI)
  qed (use first second in \<open>simp_all add: order.strict_implies_order\<close>)
  from fin pairs default_awards show ?thesis
    by (intro exI [of _ ?st']) simp
qed

lemma weekEndHeap_apply:
  "weekEndHeap 20 = teamB ''Aces'' [''Ann'', ''Abe''] 3 0 21"
  "weekEndHeap 21 = teamB ''Bats'' [''Bea'', ''Bob''] 2 1 5"
  "weekEndHeap 22 = teamB ''Cubs'' [''Cat'', ''Cy''] 2 1 3"
  "weekEndHeap 23 = teamB ''Dots'' [''Dan'', ''Di''] 1 2 (- 4)"
  "weekEndHeap 24 = teamB ''Eels'' [''Eve'', ''Ed''] 2 1 2"
  "weekEndHeap 25 = teamB ''Foxes'' [''Fay'', ''Fox''] 1 2 (- 6)"
  "weekEndHeap 26 = teamB ''Gnus'' [''Gus'', ''Gil''] 1 2 (- 8)"
  "weekEndHeap 27 = teamB ''Hens'' [''Hal'', ''Hob''] 0 3 (- 13)"
  by (simp_all add: weekEndHeap_def)

lemma weekEnd_roster: "distinct (rosterNames (heap weekEnd) finalRound)"
  by (simp add: rosterNames_def finalRound_def weekEnd_def weekEndHeap_apply teamB_def)

lemma weekEnd_round3:
  "length (bracketRounds weekEnd) > 2" "bracketRounds weekEnd ! 2 = finalRound"
  "finalRound \<noteq> []" "length finalRound \<le> 4"
  by (simp_all add: weekEnd_def finalRound_def)

lemma weekEnd_pairs:
  "finalRound ! 0 = (20, 21)" "finalRound ! 1 = (23, 22)" "finalRound ! 3 = (26, 27)"
  by (simp_all add: finalRound_def)

lemma weekEnd_wins:
  "w (bracket (heap weekEnd 20)) > w (bracket (heap weekEnd 21))"
  "w (bracket (heap weekEnd 23)) < w (bracket (heap weekEnd 22))"
  "w (bracket (heap weekEnd 26)) > w (bracket (heap weekEnd 27))"
  by (simp_all add: weekEnd_def weekEndHeap_apply teamB_def)

lemma tiedFinal_facts:
  "length (bracketRounds tiedFinal) > 2" "bracketRounds tiedFinal ! 2 = [(30, 31)]"
  "[(30, 31)] \<noteq> ([] :: (ref \<times> ref) list)" "length [(30 :: ref, 31 :: ref)] \<le> 4"
  "distinct (rosterNames (heap tiedFinal) [(30, 31)])"
  "w (bracket (heap tiedFinal 30)) = w (bracket (heap tiedFinal 31))"
  by (simp_all add: tiedFinal_def rosterNames_def teamB_def)

theorem finalizeWeek_awards_witness:
  "length (bracketRounds weekEnd) > 2 \<and> bracketRounds weekEnd ! 2 = finalRound
   \<and> finalRound \<noteq> [] \<and> length finalRound \<le> 4
   \<and> distinct (rosterNames (heap weekEnd) finalRound)
   \<and> finalRound ! 0 = (20, 21) \<and> w (bracket (heap weekEnd 20)) > w (bracket (heap weekEnd 21))
   \<and> finalRound ! 1 = (23, 22) \<and> w (bracket (heap weekEnd 23)) < w (bracket (heap weekEnd 22))
   \<and> finalRound ! 3 = (26, 27) \<and> w (bracket (heap weekEnd 26)) > w (bracket (heap weekEnd 27))
   \<and> (\<exists>st'. finalizeWeek weekEnd = Inr st'
         \<and> awarded (playerList weekEnd) (playerList st') 15 \<lparr>w = 3, l = 0, pd = 21\<rparr> ''Ann''
         \<and> awarded (playerList weekEnd) (playerList st') 8 \<lparr>w = 2, l = 1, pd = 5\<rparr> ''Bob''
         \<and> awarded (playerList weekEnd) (playerList st') 8 \<lparr>w = 2, l = 1, pd = 3\<rparr> ''Cat''
         \<and> awarded (playerList weekEnd) (playerList st') 6 \<lparr>w = 1, l = 2, pd = - 4\<rparr> ''Di''
         \<and> awarded (playerList weekEnd) (playerList st') 4 \<lparr>w = 1, l = 2, pd = - 8\<rparr> ''Gus''
         \<and> awarded (playerList weekEnd) (playerList st') 2 \<lparr>w = 0, l = 3, pd = - 13\<rparr> ''Hal'')
   \<and> length (bracketRounds tiedFinal) > 2 \<and> bracketRounds tiedFinal ! 2 = [(30, 31)]
   \<and> distinct (rosterNames (heap tiedFinal) [(30, 31)])
   \<and> w (bracket (heap tiedFinal 30)) = w (bracket (heap tiedFinal 31))
   \<and> (\<exists>st'. finalizeWeek tiedFinal = Inr st'
         \<and> awarded (playerList tiedFinal) (playerList st') 15 \<lparr>w = 2, l = 1, pd = 4\<rparr> ''Jay''
         \<and> awarded (playerList tiedFinal) (playerList st') 8 \<lparr>w = 2, l = 1, pd = 9\<rparr> ''Ivy'')"
proof -
  let ?hi = "\<lambda>i. BRACKET_BASE_POINTS ! i + (if i = 0 then FIRST_PLACE_BONUS else 0)"
  let ?lo = "\<lambda>i. BRACKET_BASE_POINTS ! i - LOSER_POINT_PENALTY"
  from finalizeWeek_awards [OF weekEnd_round3 weekEnd_roster]
  obtain st' where fin: "finalizeWeek weekEnd = Inr st'"
    and aw: "\<And>i a b. i < length finalRound \<Longrightarrow> finalRound ! i = (a, b) \<Longrightarrow>
      (w (bracket (heap weekEnd a)) > w (bracket (heap weekEnd b)) \<longrightarrow>
         (\<forall>n \<in> set (players (heap weekEnd a)).
            awarded (playerList weekEnd) (playerList st') (?hi i) (bracket (heap weekEnd a)) n)
         \<and> (\<forall>n \<in> set (players (heap weekEnd b)).
              awarded (playerList weekEnd) (playerList st') (?lo i) (bracket (heap weekEnd b)) n))
      \<and> (w (bracket (heap weekEnd a)) < w (bracket (heap weekEnd b)) \<longrightarrow>
           (\<forall>n \<in> set (players (heap weekEnd b)).
              awarded (playerList weekEnd) (playerList st') (?hi i) (bracket (heap weekEnd b)) n)
           \<and> (\<forall>n \<in> set (players (heap weekEnd a)).
                awarded (playerList weekEnd) (playerList st') (?lo i) (bracket (heap weekEnd a)) n))"
    by blast
  have len: "length finalRound = 4"
    by (simp add: finalRound_def)
  have h: "heap weekEnd = weekEndHeap"
    by (simp add: weekEnd_def)
  from aw [OF _ weekEnd_pairs(1)] aw [OF _ weekEnd_pairs(2)] aw [OF _ weekEnd_pairs(3)]
    len weekEnd_wins
  have week: "awarded (playerList weekEnd) (playerList st') 15 \<lparr>w = 3, l = 0, pd = 21\<rparr> ''Ann''"
    "awarded (playerList weekEnd) (playerList st') 8 \<lparr>w = 2, l = 1, pd = 5\<rparr> ''Bob''"
    "awarded (playerList weekEnd) (playerList st') 8 \<lparr>w = 2, l = 1, pd = 3\<rparr> ''Cat''"
    "awarded (playerList weekEnd) (playerList st') 6 \<lparr>w = 1, l = 2, pd = - 4\<rparr> ''Di''"
    "awarded (playerList weekEnd) (playerList st') 4 \<lparr>w = 1, l = 2, pd = - 8\<rparr> ''Gus''"
    "awarded (playerList weekEnd) (playerList st') 2 \<lparr>w = 0, l = 3, pd = - 13\<rparr> ''Hal''"
    by (simp_all add: h weekEndHeap_apply teamB_def BRACKET_BASE_POINTS_def
        FIRST_PLACE_BONUS_def LOSER_POINT_PENALTY_def)
  from finalizeWeek_awards [OF tiedFinal_facts(1,2,3,4,5)]
  obtain tt where tfin: "finalizeWeek tiedFinal = Inr tt"
    and taw: "\<And>i a b. i < length [(30 :: ref, 31 :: ref)] \<Longrightarrow> [(30, 31)] ! i = (a, b) \<Longrightarrow>
      w (bracket (heap tiedFinal a)) = w (bracket (heap tiedFinal b)) \<longrightarrow>
         (\<forall>n \<in> set (players (heap tiedFinal b)).
            awarded (playerList tiedFinal) (playerList tt) (?hi i) (bracket (heap tiedFinal b)) n)
         \<and> (\<forall>n \<in> set (players (heap tiedFinal a)).
              awarded (playerList tiedFinal) (playerList tt) (?lo i) (bracket (heap tiedFinal a)) n)"
    by blast
  from taw [of 0 30 31] tiedFinal_facts(6)
  have tie: "awarded (playerList tiedFinal) (playerList tt) 15 \<lparr>w = 2, l = 1, pd = 4\<rparr> ''Jay''"
    "awarded (playerList tiedFinal) (playerList tt) 8 \<lparr>w = 2, l = 1, pd = 9\<rparr> ''Ivy''"
    by (simp_all add: tiedFinal_def teamB_def BRACKET_BASE_POINTS_def
        FIRST_PLACE_BONUS_def LOSER_POINT_PENALTY_def)
  from fin week have "\<exists>st'. finalizeWeek weekEnd = Inr st'
         \<and> awarded (playerList weekEnd) (playerList st') 15 \<lparr>w = 3, l = 0, pd = 21\<rparr> ''Ann''
         \<and> awarded (playerList weekEnd) (playerList st') 8 \<lparr>w = 2, l = 1, pd = 5\<rparr> ''Bob''
         \<and> awarded (playerList weekEnd) (playerList st') 8 \<lparr>w = 2, l = 1, pd = 3\<rparr> ''Cat''
         \<and> awarded (playerList weekEnd) (playerList st') 6 \<lparr>w = 1, l = 2, pd = - 4\<rparr> ''Di''
         \<and> awarded (playerList weekEnd) (playerList st') 4 \<lparr>w = 1, l = 2, pd = - 8\<rparr> ''Gus''
         \<and> awarded (playerList weekEnd) (playerList st') 2 \<lparr>w = 0, l = 3, pd = - 13\<rparr> ''Hal''"
    by blast
  moreover from tfin tie have "\<exists>st'. finalizeWeek tiedFinal = Inr st'
         \<and> awarded (playerList tiedFinal) (playerList st') 15 \<lparr>w = 2, l = 1, pd = 4\<rparr> ''Jay''
         \<and> awarded (playerList tiedFinal) (playerList st') 8 \<lparr>w = 2, l = 1, pd = 9\<rparr> ''Ivy''"
    by blast
  ultimately show ?thesis
    using weekEnd_round3 weekEnd_roster weekEnd_pairs weekEnd_wins tiedFinal_facts
    by simp
qed

text \<open>The same week end, computed: Ann had 30 points and a 5-1 record, Hal 7 points and 1-2.\<close>

lemma weekEnd_evaluated:
  "map_option league (findPlayerByName (playerList (projr (finalizeWeek weekEnd))) ''Ann'')
     = Some \<lparr>w = 8, l = 1, pd = 33, pts = 45\<rparr>"
  "map_option league (findPlayerByName (playerList (projr (finalizeWeek weekEnd))) ''Hal'')
     = Some \<lparr>w = 1, l = 5, pd = - 16, pts = 9\<rparr>"
  by (simp_all add: finalizeWeek_def weekEnd_def finalRound_def Let_def hiTeamOf_def loTeamOf_def
      weekEndHeap_apply teamB_def hiPts_def loPts_def basePoints_def BRACKET_BASE_POINTS_def
      FIRST_PLACE_BONUS_def LOSER_POINT_PENALTY_def mkPlayer_def credit_def findPlayerByName_def)

lemma resetTeam_foldl:
  "foldl resetTeam h ts t =
     (if t \<in> set ts
      then (h t)\<lparr>swiss := \<lparr>w = 0, l = 0, pd = 0, opps = [], h2h = [], playR4 = False\<rparr>,
                  bracket := \<lparr>w = 0, l = 0, pd = 0\<rparr>\<rparr>
      else h t)"
  by (induction ts arbitrary: h) (auto simp: resetTeam_def)

text \<open>
  C3, as the code has it. When round 3 of the bracket holds between one and four pairs,
  \<^verbatim>\<open>finalizeWeek\<close> completes and resets the Swiss and bracket blocks of every team of the
  league to zero and empty; it leaves the week counter, \<open>swissRound\<close> and \<open>bracketRounds\<close>
  as they were. The week counter is incremented and \<open>swissRound\<close> set to 0 by the separate
  operation \<^verbatim>\<open>nextWeek\<close>, and only while the week is below \<open>TOTAL_WEEKS\<close>; neither
  operation clears \<open>bracketRounds\<close>.
\<close>

theorem finalizeWeek_resets_teams:
  assumes "length (bracketRounds st) > 2" and "bracketRounds st ! 2 \<noteq> []"
    and "length (bracketRounds st ! 2) \<le> 4"
  shows "\<exists>st'. finalizeWeek st = Inr st'
     \<and> (\<forall>t \<in> set (teams st).
           swiss (heap st' t) = \<lparr>w = 0, l = 0, pd = 0, opps = [], h2h = [], playR4 = False\<rparr>
           \<and> bracket (heap st' t) = \<lparr>w = 0, l = 0, pd = 0\<rparr>)
     \<and> week st' = week st \<and> swissRound st' = swissRound st
     \<and> bracketRounds st' = bracketRounds st
     \<and> heap (nextWeek st') = heap st'
     \<and> bracketRounds (nextWeek st') = bracketRounds st
     \<and> (week st < TOTAL_WEEKS \<longrightarrow>
          week (nextWeek st') = week st + 1 \<and> swissRound (nextWeek st') = 0)
     \<and> (week st \<ge> TOTAL_WEEKS \<longrightarrow> nextWeek st' = st')"
proof -
  let ?ps = "applyEvents (events (heap st) 0 (bracketRounds st ! 2)) (playerList st)"
  let ?st' = "st\<lparr>playerList := ?ps, heap := foldl resetTeam (heap st) (teams st)\<rparr>"
  have fin: "finalizeWeek st = Inr ?st'"
    by (rule finalizeWeek_succeeds [OF assms])
  show ?thesis
  proof (intro exI conjI ballI impI)
    show "finalizeWeek st = Inr ?st'" by (rule fin)
  qed (simp_all add: resetTeam_foldl nextWeek_def isLeagueComplete_def)
qed

text \<open>
  C3. At the end of week 1, \<^verbatim>\<open>finalizeWeek\<close> leaves the week at 1, \<open>swissRound\<close> at 4 and
  all three bracket rounds in place; after \<^verbatim>\<open>nextWeek\<close> the week is 2 and \<open>swissRound\<close>
  is 0, and the three bracket rounds are still there.
\<close>

theorem finalizeWeek_keeps_week_and_bracket:
  "\<not> isl (finalizeWeek weekEnd)
   \<and> week weekEnd = 1 \<and> week (projr (finalizeWeek weekEnd)) = 1
   \<and> swissRound (projr (finalizeWeek weekEnd)) = 4
   \<and> bracketRounds (projr (finalizeWeek weekEnd)) = bracketRounds weekEnd
   \<and> length (bracketRounds (projr (finalizeWeek weekEnd))) = 3
   \<and> week (nextWeek (projr (finalizeWeek weekEnd))) = 2
   \<and> swissRound (nextWeek (projr (finalizeWeek weekEnd))) = 0
   \<and> length (bracketRounds (nextWeek (projr (finalizeWeek weekEnd)))) = 3"
proof -
  have "length (bracketRounds weekEnd) > 2" "bracketRounds weekEnd ! 2 \<noteq> []"
    "length (bracketRounds weekEnd ! 2) \<le> 4"
    using weekEnd_round3 by simp_all
  from finalizeWeek_succeeds [OF this]
  obtain st' where fin: "finalizeWeek weekEnd = Inr st'"
    and st': "st' = weekEnd\<lparr>playerList := playerList st', heap := heap st'\<rparr>"
    by simp
  have "week st' = 1" "swissRound st' = 4" "bracketRounds st' = bracketRounds weekEnd"
    "length (bracketRounds st') = 3"
    by (subst st', simp add: weekEnd_def)+
  moreover from this have "week (nextWeek st') = 2" "swissRound (nextWeek st') = 0"
    "length (bracketRounds (nextWeek st')) = 3"
    by (simp_all add: nextWeek_def isLeagueComplete_def TOTAL_WEEKS_def)
  moreover have "week weekEnd = 1"
    by (simp add: weekEnd_def)
  ultimately show ?thesis
    by (simp add: fin)
qed

theorem finalizeWeek_resets_teams_witness:
  "length (bracketRounds weekEnd) > 2 \<and> bracketRounds weekEnd ! 2 \<noteq> []
   \<and> length (bracketRounds weekEnd ! 2) \<le> 4 \<and> week weekEnd < TOTAL_WEEKS
   \<and> (\<exists>st'. finalizeWeek weekEnd = Inr st'
         \<and> swiss (heap st' 20) = \<lparr>w = 0, l = 0, pd = 0, opps = [], h2h = [], playR4 = False\<rparr>
         \<and> bracket (heap st' 20) = \<lparr>w = 0, l = 0, pd = 0\<rparr>
         \<and> swiss (heap st' 27) = \<lparr>w = 0, l = 0, pd = 0, opps = [], h2h = [], playR4 = False\<rparr>
         \<and> bracket (heap st' 27) = \<lparr>w = 0, l = 0, pd = 0\<rparr>
         \<and> week st' = 1 \<and> swissRound st' = 4 \<and> length (bracketRounds st') = 3
         \<and> week (nextWeek st') = 2 \<and> swissRound (nextWeek st') = 0
         \<and> length (bracketRounds (nextWeek st')) = 3)"
proof -
  have hyp: "length (bracketRounds weekEnd) > 2" "bracketRounds weekEnd ! 2 \<noteq> []"
    "length (bracketRounds weekEnd ! 2) \<le> 4"
    using weekEnd_round3 by simp_all
  have wk: "week weekEnd < TOTAL_WEEKS" "week weekEnd = 1" "swissRound weekEnd = 4"
    "length (bracketRounds weekEnd) = 3" "20 \<in> set (teams weekEnd)" "27 \<in> set (teams weekEnd)"
    by (simp_all add: weekEnd_def TOTAL_WEEKS_def)
  from finalizeWeek_resets_teams [OF hyp] obtain st'
    where fin: "finalizeWeek weekEnd = Inr st'"
      and reset: "\<forall>t \<in> set (teams weekEnd).
           swiss (heap st' t) = \<lparr>w = 0, l = 0, pd = 0, opps = [], h2h = [], playR4 = False\<rparr>
           \<and> bracket (heap st' t) = \<lparr>w = 0, l = 0, pd = 0\<rparr>"
      and same: "week st' = week weekEnd" "swissRound st' = swissRound weekEnd"
        "bracketRounds st' = bracketRounds weekEnd"
        "bracketRounds (nextWeek st') = bracketRounds weekEnd"
      and nxt: "week weekEnd < TOTAL_WEEKS \<longrightarrow>
          week (nextWeek st') = week weekEnd + 1 \<and> swissRound (nextWeek st') = 0"
    by blast
  from reset wk(5,6) have
    "swiss (heap st' 20) = \<lparr>w = 0, l = 0, pd = 0, opps = [], h2h = [], playR4 = False\<rparr>"
    "bracket (heap st' 20) = \<lparr>w = 0, l = 0, pd = 0\<rparr>"
    "swiss (heap st' 27) = \<lparr>w = 0, l = 0, pd = 0, opps = [], h2h = [], playR4 = False\<rparr>"
    "bracket (heap st' 27) = \<lparr>w = 0, l = 0, pd = 0\<rparr>"
    by blast+
  moreover from same nxt wk have "week st' = 1" "swissRound st' = 4"
    "length (bracketRounds st') = 3" "week (nextWeek st') = 2" "swissRound (nextWeek st') = 0"
    "length (bracketRounds (nextWeek st')) = 3"
    by simp_all
  ultimately show ?thesis
    using fin hyp wk(1) by blast
qed

end
